theory Spec2Isabelle
  imports Complex_Main "HOL-Library.Multiset"
begin

chapter \<open>The model\<close>

section \<open>JavaScript strings\<close>

text \<open>
  A JavaScript string is modelled as a \<^typ>\<open>string\<close>: each \<^typ>\<open>char\<close> stands for one
  UTF-16 code unit below 256.  \<open>String.prototype.trim\<close> and the regular expression class
  \<open>\s\<close> remove the white space of ECMAScript; the code units below 256 among it are
  TAB, LF, VT, FF, CR, SPACE and NO-BREAK SPACE.
\<close>

definition js_whitespace :: "char \<Rightarrow> bool" where
  "js_whitespace c = (of_char c \<in> {9, 10, 11, 12, 13, 32, 160 :: nat})"

definition js_trim :: "string \<Rightarrow> string" where
  "js_trim s = rev (dropWhile js_whitespace (rev (dropWhile js_whitespace s)))"

definition upper_letters :: string where
  "upper_letters = ''ABCDEFGHIJKLMNOPQRSTUVWXYZ''"

definition lower_letters :: string where
  "lower_letters = ''abcdefghijklmnopqrstuvwxyz''"

text \<open>
  \<open>String.prototype.toLowerCase\<close> on code units below 256: the capitals \<open>A\<close> to \<open>Z\<close>
  (65 to 90) and the accented capitals 192 to 222, the multiplication sign 215 apart,
  are moved up by 32; every other code unit stays.
\<close>

definition lower_char :: "char \<Rightarrow> char" where
  "lower_char c =
     (if (65 \<le> (of_char c :: nat) \<and> (of_char c :: nat) \<le> 90)
         \<or> (192 \<le> (of_char c :: nat) \<and> (of_char c :: nat) \<le> 222 \<and> (of_char c :: nat) \<noteq> 215)
      then char_of ((of_char c :: nat) + 32) else c)"

definition toLowerCase :: "string \<Rightarrow> string" where
  "toLowerCase s = map lower_char s"

definition startsWith :: "string \<Rightarrow> string \<Rightarrow> bool" where
  "startsWith s p = (take (length p) s = p)"

section \<open>File-type classification (ragService.js, \<open>getFileType\<close>)\<close>

text \<open>
  \<open>path.basename\<close> and \<open>path.extname\<close> are Node's POSIX path functions.  Both ignore
  trailing separators and look at the last component of the path only.  \<open>extname\<close> is
  the text from the last dot of that component to its end; it is empty when the component
  has no dot, when its only dot is its first character, and when the component is \<open>..\<close>.
\<close>

definition last_component :: "string \<Rightarrow> string" where
  "last_component p =
     rev (takeWhile (\<lambda>c. c \<noteq> CHR ''/'') (dropWhile (\<lambda>c. c = CHR ''/'') (rev p)))"

definition path_basename :: "string \<Rightarrow> string" where
  "path_basename p = last_component p"

definition ext_of_component :: "string \<Rightarrow> string" where
  "ext_of_component b =
     (let after = takeWhile (\<lambda>c. c \<noteq> CHR ''.'') (rev b);
          upto = dropWhile (\<lambda>c. c \<noteq> CHR ''.'') (rev b)
      in if upto = [] then []
         else if tl upto = [] then []
         else if b = ''..'' then []
         else CHR ''.'' # rev after)"

definition path_extname :: "string \<Rightarrow> string" where
  "path_extname p = ext_of_component (last_component p)"

definition js_includes :: "'a list \<Rightarrow> 'a \<Rightarrow> bool" where
  "js_includes xs x = (x \<in> set xs)"

definition getFileType :: "string \<Rightarrow> string" where
  "getFileType filePath =
     (let ext = toLowerCase (path_extname filePath);
          basename = toLowerCase (path_basename filePath)
      in if js_includes [''.js'', ''.jsx'', ''.ts'', ''.tsx''] ext then ''javascript''
         else if js_includes [''.py''] ext then ''python''
         else if js_includes [''.java''] ext then ''java''
         else if js_includes [''.cpp'', ''.cc'', ''.cxx'', ''.c++''] ext then ''cpp''
         else if js_includes [''.c'', ''.h''] ext then ''c''
         else if js_includes [''.cs''] ext then ''csharp''
         else if js_includes [''.php''] ext then ''php''
         else if js_includes [''.rb''] ext then ''ruby''
         else if js_includes [''.go''] ext then ''go''
         else if js_includes [''.rs''] ext then ''rust''
         else if js_includes [''.kt''] ext then ''kotlin''
         else if js_includes [''.swift''] ext then ''swift''
         else if js_includes [''.html'', ''.htm''] ext then ''html''
         else if js_includes [''.css'', ''.scss'', ''.sass'', ''.less''] ext then ''css''
         else if js_includes [''.vue''] ext then ''vue''
         else if js_includes [''.json''] ext then ''json''
         else if js_includes [''.yaml'', ''.yml''] ext then ''yaml''
         else if js_includes [''.xml''] ext then ''xml''
         else if js_includes [''.toml''] ext then ''toml''
         else if js_includes [''.ini''] ext then ''ini''
         else if js_includes [''.md'', ''.markdown''] ext then ''markdown''
         else if js_includes [''.txt''] ext then ''text''
         else if js_includes [''.rst''] ext then ''rst''
         else if js_includes [''package.json''] basename then ''package-config''
         else if js_includes [''dockerfile''] basename then ''docker''
         else if js_includes [''.env'', ''.env.example''] basename then ''environment''
         else if js_includes [''makefile''] basename then ''makefile''
         else if js_includes [''.sh'', ''.bash''] ext then ''bash''
         else ''unknown'')"

section \<open>Regular expressions used by the analytics service\<close>

text \<open>
  \<open>content.match(re)\<close> without the \<open>g\<close> flag is truthy exactly when \<open>re\<close> matches at
  some position of \<open>content\<close>.  \<open>re_search m s\<close> tries the matcher \<open>m\<close> on every suffix of
  \<open>s\<close>, from left to right.
\<close>

fun re_search :: "(string \<Rightarrow> bool) \<Rightarrow> string \<Rightarrow> bool" where
  "re_search m [] = m []"
| "re_search m (x # xs) = (m (x # xs) \<or> re_search m xs)"

text \<open>
  The pattern \<open>kw\s*c\<close> at the start of \<open>s\<close>: the literal \<open>kw\<close>, then white space, then the
  character \<open>c\<close>.  The character after the white space is never itself white space in
  the patterns below, so the greedy \<open>\s*\<close> never has to give a character back.
\<close>

definition re_kw_ws_ch_at :: "string \<Rightarrow> char \<Rightarrow> string \<Rightarrow> bool" where
  "re_kw_ws_ch_at kw c s =
     (startsWith s kw \<and>
      (case dropWhile js_whitespace (drop (length kw) s) of [] \<Rightarrow> False | d # _ \<Rightarrow> d = c))"

definition re_literal_at :: "string \<Rightarrow> string \<Rightarrow> bool" where
  "re_literal_at kw s = startsWith s kw"

section \<open>Analytics service: security score (\<open>calculateSecurityScore\<close>)\<close>

record vulnerability =
  pattern :: "string \<Rightarrow> bool"
  penalty :: int

definition vulnerabilities :: "vulnerability list" where
  "vulnerabilities =
     [\<lparr>pattern = re_search (re_kw_ws_ch_at ''eval'' CHR ''(''), penalty = 20\<rparr>,
      \<lparr>pattern = re_search (re_kw_ws_ch_at ''innerHTML'' CHR ''=''), penalty = 15\<rparr>,
      \<lparr>pattern = re_search (re_literal_at ''document.write''), penalty = 15\<rparr>,
      \<lparr>pattern = re_search (re_kw_ws_ch_at ''sql'' CHR ''+''), penalty = 10\<rparr>,
      \<lparr>pattern = re_search (re_kw_ws_ch_at ''password'' CHR ''=''), penalty = 5\<rparr>]"

definition calculateSecurityScore :: "string \<Rightarrow> int" where
  "calculateSecurityScore content =
     max 0 (fold (\<lambda>vuln score. if pattern vuln content then score - penalty vuln else score)
              vulnerabilities 100)"

text \<open>
  What the five patterns mean, stated without the matcher: \<open>kw\<close>, a run of white space and
  the character \<open>c\<close> occur next to each other somewhere in the text.
\<close>

definition occurs_spaced :: "string \<Rightarrow> char \<Rightarrow> string \<Rightarrow> bool" where
  "occurs_spaced kw c s =
     (\<exists>pre ws post. s = pre @ kw @ ws @ c # post \<and> list_all js_whitespace ws)"

definition occurs_literal :: "string \<Rightarrow> string \<Rightarrow> bool" where
  "occurs_literal kw s = (\<exists>pre post. s = pre @ kw @ post)"

section \<open>The loopback HTTP API (\<open>setupCLIServer\<close>)\<close>

text \<open>
  Request and response bodies are JSON values; \<open>JUndefined\<close> stands for JavaScript's
  \<open>undefined\<close>, the value of a property that is not there.
\<close>

datatype json =
  JUndefined
  | JNull
  | JBool bool
  | JNum int
  | JStr string
  | JArr "json list"
  | JObj "(string \<times> json) list"

fun truthy :: "json \<Rightarrow> bool" where
  "truthy JUndefined = False"
| "truthy JNull = False"
| "truthy (JBool b) = b"
| "truthy (JNum n) = (n \<noteq> 0)"
| "truthy (JStr s) = (s \<noteq> [])"
| "truthy (JArr xs) = True"
| "truthy (JObj kvs) = True"

fun isArray :: "json \<Rightarrow> bool" where
  "isArray (JArr xs) = True"
| "isArray v = False"

text \<open>Reading a property of a request body; a property that is absent reads as \<open>undefined\<close>.\<close>

fun jprop :: "json \<Rightarrow> string \<Rightarrow> json" where
  "jprop (JObj kvs) k = (case map_of kvs k of Some v \<Rightarrow> v | None \<Rightarrow> JUndefined)"
| "jprop v k = JUndefined"

text \<open>A destructuring default \<open>{k = d}\<close> applies when the property is \<open>undefined\<close>.\<close>

definition with_default :: "json \<Rightarrow> json \<Rightarrow> json" where
  "with_default v d = (if v = JUndefined then d else v)"

text \<open>
  The routes call the RAG service.  For the routes the service is an environment: each
  call either returns a value or throws an error with a message (\<open>Inl\<close>).
\<close>

record rag_calls =
  call_ingestCommit :: "json \<Rightarrow> string + json"
  call_getProjects :: "string + json"
  call_searchAndGenerate :: "json \<Rightarrow> json \<Rightarrow> json \<Rightarrow> string + json"
  call_ingestDocument :: "json \<Rightarrow> json \<Rightarrow> string + json"

record response =
  status :: nat
  body :: json

text \<open>\<open>res.json(v)\<close> answers with status 200; \<open>res.status(c).json(v)\<close> with status \<open>c\<close>.\<close>

definition res_json :: "json \<Rightarrow> response" where
  "res_json v = \<lparr>status = 200, body = v\<rparr>"

definition res_status_json :: "nat \<Rightarrow> json \<Rightarrow> response" where
  "res_status_json c v = \<lparr>status = c, body = v\<rparr>"

definition success_body :: "json \<Rightarrow> json" where
  "success_body v = JObj [(''success'', JBool True), (''data'', v)]"

definition failure_body :: "string \<Rightarrow> json" where
  "failure_body msg = JObj [(''success'', JBool False), (''error'', JStr msg)]"

definition post_ingest_commit :: "rag_calls \<Rightarrow> json \<Rightarrow> response" where
  "post_ingest_commit rag commitData =
     (if \<not> truthy commitData \<or> \<not> truthy (jprop commitData ''projectName'')
         \<or> \<not> truthy (jprop commitData ''files'')
      then res_status_json 400 (failure_body
             ''Invalid commit data structure. Expected: {projectName, metadata, files}'')
      else if \<not> isArray (jprop commitData ''files'')
      then res_status_json 400 (failure_body ''Files must be an array'')
      else case call_ingestCommit rag commitData of
             Inr result \<Rightarrow> res_json (success_body result)
           | Inl message \<Rightarrow> res_status_json 500 (failure_body message))"

definition get_projects :: "rag_calls \<Rightarrow> response" where
  "get_projects rag =
     (case call_getProjects rag of
        Inr projects \<Rightarrow> res_json (success_body projects)
      | Inl message \<Rightarrow> res_status_json 500 (failure_body message))"

definition post_search :: "rag_calls \<Rightarrow> json \<Rightarrow> response" where
  "post_search rag reqBody =
     (let query = jprop reqBody ''query'';
          k = with_default (jprop reqBody ''k'') (JNum 5);
          projectName = with_default (jprop reqBody ''projectName'') JNull
      in if \<not> truthy query then res_status_json 400 (failure_body ''Query is required'')
         else case call_searchAndGenerate rag query k projectName of
                Inr result \<Rightarrow> res_json (success_body result)
              | Inl message \<Rightarrow> res_status_json 500 (failure_body message))"

definition post_ingest :: "rag_calls \<Rightarrow> json \<Rightarrow> response" where
  "post_ingest rag reqBody =
     (let text = jprop reqBody ''text'';
          metadata = jprop reqBody ''metadata''
      in if \<not> truthy text then res_status_json 400 (failure_body ''Text is required'')
         else case call_ingestDocument rag text (if truthy metadata then metadata else JObj []) of
                Inr result \<Rightarrow> res_json (success_body result)
              | Inl message \<Rightarrow> res_status_json 500 (failure_body message))"

definition get_health :: "string \<Rightarrow> response" where
  "get_health now =
     res_json (JObj [(''success'', JBool True), (''status'', JStr ''healthy''),
                     (''timestamp'', JStr now)])"

definition post_query :: "rag_calls \<Rightarrow> json \<Rightarrow> response" where
  "post_query rag reqBody =
     (case call_searchAndGenerate rag (jprop reqBody ''query'') (jprop reqBody ''k'') JUndefined of
        Inr result \<Rightarrow> res_json (success_body result)
      | Inl message \<Rightarrow> res_json (failure_body message))"

datatype request =
  PostIngestCommit json
  | GetProjects
  | PostSearch json
  | PostIngest json
  | GetHealth
  | PostQuery json

text \<open>The server: one handler per route; \<open>now\<close> is the clock read by the health check.\<close>

fun cli_server :: "rag_calls \<Rightarrow> string \<Rightarrow> request \<Rightarrow> response" where
  "cli_server rag now (PostIngestCommit b) = post_ingest_commit rag b"
| "cli_server rag now GetProjects = get_projects rag"
| "cli_server rag now (PostSearch b) = post_search rag b"
| "cli_server rag now (PostIngest b) = post_ingest rag b"
| "cli_server rag now GetHealth = get_health now"
| "cli_server rag now (PostQuery b) = post_query rag b"

text \<open>A RAG service none of whose calls succeeds, as when no embedding service is set up.\<close>

definition rag_down :: rag_calls where
  "rag_down =
     \<lparr>call_ingestCommit = (\<lambda>c. Inl ''Embedding service not initialized''),
      call_getProjects = Inl ''Embedding service not initialized'',
      call_searchAndGenerate = (\<lambda>q k p. Inl ''Embedding service not initialized''),
      call_ingestDocument = (\<lambda>t m. Inl ''Embedding service not initialized'')\<rparr>"

definition is_failure :: "response \<Rightarrow> bool" where
  "is_failure r = (jprop (body r) ''success'' = JBool False)"

section \<open>Model manager (\<open>ModelManager\<close>)\<close>

text \<open>
  The persisted configuration.  An API key is a string or \<open>null\<close>; JavaScript treats
  \<open>null\<close> and the empty string alike as "no key" (\<open>!key\<close>).
\<close>

record model_config =
  llmProvider :: string
  embeddingProvider :: string
  ollamaModel :: string
  geminiApiKey :: "string option"
  huggingfaceApiKey :: "string option"
  openaiApiKey :: "string option"
  lastUpdated :: string
  version :: string

definition key_present :: "string option \<Rightarrow> bool" where
  "key_present k = (case k of None \<Rightarrow> False | Some s \<Rightarrow> s \<noteq> [])"

definition default_config :: "string \<Rightarrow> model_config" where
  "default_config today =
     \<lparr>llmProvider = ''ollama'', embeddingProvider = ''ollama'', ollamaModel = ''phi3:mini'',
      geminiApiKey = None, huggingfaceApiKey = None, openaiApiKey = None,
      lastUpdated = today, version = ''1.0.0''\<rparr>"

datatype llm_service = OllamaService | GeminiService string

datatype embedding_service =
  EmbeddingService (es_provider: string) (es_huggingfaceApiKey: "string option")
    (es_openaiApiKey: "string option")

text \<open>
  What the manager cannot decide by itself: whether the local runtime answers, what a
  request to the hosted API with a key brings (the text of the reply, or the message of
  the error raised while the request is made and its response read), whether the
  configuration file can be written, and the clock.  Each is asked at a step number, so
  that two attempts in one call may be answered differently.
\<close>

record world =
  ollama_installed :: "nat \<Rightarrow> bool"
  gemini_request :: "nat \<Rightarrow> string \<Rightarrow> string + string"
  file_writable :: "nat \<Rightarrow> bool"
  clock :: "nat \<Rightarrow> string"

text \<open>
  The manager: the configuration in memory, the content of the configuration file
  (\<open>None\<close> while the file does not exist), the two adapters and the step counter.
\<close>

record manager =
  config :: model_config
  saved :: "model_config option"
  llmService :: "llm_service option"
  embeddingService :: "embedding_service option"
  step :: nat

text \<open>
  A method that may throw returns the message of the error (\<open>None\<close> when it returns
  normally) together with the manager as the method left it.
\<close>

type_synonym outcome = "string option \<times> manager"

text \<open>\<open>saveConfig\<close> stamps the configuration and writes it; a failed write is only logged.\<close>

definition saveConfig :: "world \<Rightarrow> manager \<Rightarrow> manager" where
  "saveConfig w m =
     (let c = (config m)\<lparr>lastUpdated := clock w (step m)\<rparr>
      in m\<lparr>config := c,
           saved := (if file_writable w (step m) then Some c else saved m),
           step := Suc (step m)\<rparr>)"

definition ollama_initialize :: "world \<Rightarrow> manager \<Rightarrow> outcome" where
  "ollama_initialize w m =
     (if ollama_installed w (step m) then (None, m\<lparr>step := Suc (step m)\<rparr>)
      else (Some ''Ollama not found. Please install Ollama first.'', m\<lparr>step := Suc (step m)\<rparr>))"

text \<open>
  The hosted adapter (geminiService.js).  \<open>generateWithContext\<close> wraps every error of the
  request; \<open>testConnection\<close> throws on it, and on an empty reply; \<open>initialize\<close> wraps what
  \<open>testConnection\<close> throws.
\<close>

definition gemini_generateWithContext :: "world \<Rightarrow> nat \<Rightarrow> string \<Rightarrow> string + string" where
  "gemini_generateWithContext w t apiKey =
     (case gemini_request w t apiKey of
        Inl message \<Rightarrow> Inl (''Gemini API error: '' @ message)
      | Inr reply \<Rightarrow> Inr reply)"

definition gemini_testConnection :: "world \<Rightarrow> nat \<Rightarrow> string \<Rightarrow> string option" where
  "gemini_testConnection w t apiKey =
     (case gemini_generateWithContext w t apiKey of
        Inl message \<Rightarrow> Some message
      | Inr testResponse \<Rightarrow>
          if testResponse = [] then Some ''Invalid API response during test'' else None)"

definition gemini_initialize :: "world \<Rightarrow> string \<Rightarrow> manager \<Rightarrow> outcome" where
  "gemini_initialize w apiKey m =
     (if apiKey = [] then (Some ''Gemini API key is required'', m)
      else case gemini_testConnection w (step m) apiKey of
             None \<Rightarrow> (None, m\<lparr>step := Suc (step m)\<rparr>)
           | Some message \<Rightarrow>
               (Some (''Gemini API key validation failed: '' @ message), m\<lparr>step := Suc (step m)\<rparr>))"

text \<open>
  \<open>initializeLLM\<close>.  With the hosted provider selected and no key stored it records the
  local provider, saves, and initialises that one instead; this is its only recursive
  call, written out here as \<open>initializeLLM_ollama\<close>.
\<close>

definition initializeLLM_ollama :: "world \<Rightarrow> manager \<Rightarrow> outcome" where
  "initializeLLM_ollama w m = ollama_initialize w (m\<lparr>llmService := Some OllamaService\<rparr>)"

definition initializeLLM :: "world \<Rightarrow> manager \<Rightarrow> outcome" where
  "initializeLLM w m =
     (if llmProvider (config m) = ''ollama'' then initializeLLM_ollama w m
      else if llmProvider (config m) = ''gemini'' then
        (if \<not> key_present (geminiApiKey (config m))
         then initializeLLM_ollama w
                (saveConfig w (m\<lparr>config := (config m)\<lparr>llmProvider := ''ollama''\<rparr>\<rparr>))
         else gemini_initialize w (the (geminiApiKey (config m)))
                (m\<lparr>llmService := Some (GeminiService (the (geminiApiKey (config m))))\<rparr>))
      else (Some (''Unsupported LLM provider: '' @ llmProvider (config m)), m))"

definition embedding_initialize :: "embedding_service \<Rightarrow> string option" where
  "embedding_initialize s =
     (if es_provider s \<in> {''ollama'', ''huggingface'', ''openai''} then None
      else Some (''Unsupported embedding provider: '' @ es_provider s))"

definition initializeEmbedding :: "manager \<Rightarrow> outcome" where
  "initializeEmbedding m =
     (let s = EmbeddingService
                (if embeddingProvider (config m) = [] then ''ollama''
                 else embeddingProvider (config m))
                (huggingfaceApiKey (config m)) (openaiApiKey (config m));
          m' = m\<lparr>embeddingService := Some s\<rparr>
      in (embedding_initialize s, m'))"

record llm_options =
  apiKey :: "string option"
  model :: "string option"

text \<open>
  \<open>setLLMProvider\<close> in three pieces: the assignments before the first save, the
  assignment of the \<open>catch\<close> block, and the method itself.
\<close>

definition apply_llm_switch :: "string \<Rightarrow> llm_options \<Rightarrow> manager \<Rightarrow> manager" where
  "apply_llm_switch provider options m =
     (let m1 = m\<lparr>config := (config m)\<lparr>llmProvider := provider\<rparr>\<rparr>;
          m2 = (if provider = ''gemini'' \<and> key_present (apiKey options)
                then m1\<lparr>config := (config m1)\<lparr>geminiApiKey := apiKey options\<rparr>\<rparr> else m1)
      in if provider = ''ollama'' \<and> key_present (model options)
         then m2\<lparr>config := (config m2)\<lparr>ollamaModel := the (model options)\<rparr>\<rparr> else m2)"

definition rollback_llm :: "string \<Rightarrow> manager \<Rightarrow> manager" where
  "rollback_llm previousProvider m = m\<lparr>config := (config m)\<lparr>llmProvider := previousProvider\<rparr>\<rparr>"

definition setLLMProvider :: "world \<Rightarrow> string \<Rightarrow> llm_options \<Rightarrow> manager \<Rightarrow> outcome" where
  "setLLMProvider w provider options m =
     (let previousProvider = llmProvider (config m);
          m4 = saveConfig w (apply_llm_switch provider options m)
      in case initializeLLM w m4 of
           (None, m5) \<Rightarrow> (None, m5)
         | (Some error, m5) \<Rightarrow>
             (case initializeLLM w (saveConfig w (rollback_llm previousProvider m5)) of
                (None, m8) \<Rightarrow> (Some error, m8)
              | (Some error2, m8) \<Rightarrow> (Some error2, m8)))"

definition setEmbeddingProvider :: "world \<Rightarrow> string \<Rightarrow> string option \<Rightarrow> manager \<Rightarrow> outcome" where
  "setEmbeddingProvider w provider key m =
     (let m1 = m\<lparr>config := (config m)\<lparr>embeddingProvider := provider\<rparr>\<rparr>;
          m2 = (if key_present key then
                  (if provider = ''huggingface''
                   then m1\<lparr>config := (config m1)\<lparr>huggingfaceApiKey := key\<rparr>\<rparr>
                   else if provider = ''openai''
                   then m1\<lparr>config := (config m1)\<lparr>openaiApiKey := key\<rparr>\<rparr>
                   else m1)
                else m1);
          m3 = saveConfig w m2
      in initializeEmbedding m3)"

definition isProviderConfigured :: "model_config \<Rightarrow> string \<Rightarrow> bool" where
  "isProviderConfigured c provider =
     (if provider = ''ollama'' then True
      else if provider = ''gemini'' then key_present (geminiApiKey c)
      else False)"

definition getMaskedApiKey :: "model_config \<Rightarrow> string \<Rightarrow> string option" where
  "getMaskedApiKey c provider =
     (let key = (if provider = ''gemini'' then geminiApiKey c
                 else if provider = ''huggingface'' then huggingfaceApiKey c
                 else if provider = ''openai'' then openaiApiKey c
                 else None)
      in if \<not> key_present key then None
         else if length (the key) > 12
         then Some (take 8 (the key) @ ''...'' @ drop (length (the key) - 4) (the key))
         else Some (take 4 (the key) @ ''...''))"

record masked_keys =
  gemini :: "string option"
  huggingface :: "string option"
  openai :: "string option"

record configured_flags =
  ollama_configured :: bool
  gemini_configured :: bool

text \<open>
  The value of \<open>getConfig\<close>: the object spread \<open>...this.config\<close> copies every field of
  the configuration, and the two objects \<open>maskedKeys\<close> and \<open>configured\<close> are added.
\<close>

record config_view = model_config +
  maskedKeys :: masked_keys
  configured :: configured_flags

definition getConfig :: "model_config \<Rightarrow> config_view" where
  "getConfig c =
     model_config.extend c
       (config_view.fields
          \<lparr>gemini = getMaskedApiKey c ''gemini'',
           huggingface = getMaskedApiKey c ''huggingface'',
           openai = getMaskedApiKey c ''openai''\<rparr>
          \<lparr>ollama_configured = isProviderConfigured c ''ollama'',
           gemini_configured = isProviderConfigured c ''gemini''\<rparr>)"

text \<open>
  A configuration with a hosted-generative key stored, and a manager on the default
  configuration with the local provider running.
\<close>

definition keyed_config :: model_config where
  "keyed_config = (default_config ''2024-01-01T00:00:00.000Z'')
     \<lparr>llmProvider := ''gemini'', geminiApiKey := Some ''AIzaSyD-0123456789abcdef''\<rparr>"

definition manager0 :: manager where
  "manager0 =
     \<lparr>config = default_config ''2024-01-01T00:00:00.000Z'',
      saved = Some (default_config ''2024-01-01T00:00:00.000Z''),
      llmService = Some OllamaService,
      embeddingService = Some (EmbeddingService ''ollama'' None None),
      step = 0\<rparr>"

text \<open>
  A world in which the local runtime works and the hosted API answers every request with
  an HTTP error, whose message the request is rejected with.
\<close>

definition gemini_down :: world where
  "gemini_down =
     \<lparr>ollama_installed = (\<lambda>t. True),
      gemini_request = (\<lambda>t key. Inl ''API key not valid. Please pass a valid API key.''),
      file_writable = (\<lambda>t. True),
      clock = (\<lambda>t. ''2024-06-01T12:00:00.000Z'')\<rparr>"

text \<open>
  The step at which a call of \<open>setLLMProvider\<close> whose first initialisation fails writes the
  configuration for the last time: the save of the \<open>catch\<close> block, which comes right after
  the failed initialisation, or the save of the fall-back that follows it when the
  previous provider is the hosted one and no key is stored.
\<close>

definition last_save :: "world \<Rightarrow> string \<Rightarrow> llm_options \<Rightarrow> manager \<Rightarrow> nat" where
  "last_save w provider options m =
     (let m5 = snd (initializeLLM w (saveConfig w (apply_llm_switch provider options m)))
      in if llmProvider (config m) = ''gemini''
            \<and> \<not> key_present (geminiApiKey (config (apply_llm_switch provider options m)))
         then Suc (step m5) else step m5)"

text \<open>
  The masking rule in the words of the specification: an absent key masks to nothing, a
  key longer than 12 characters to its first 8 characters, an ellipsis and its last 4,
  a shorter key to its first 4 characters and an ellipsis.
\<close>

definition masked_spec :: "string option \<Rightarrow> string option" where
  "masked_spec key =
     (case key of
        None \<Rightarrow> None
      | Some k \<Rightarrow>
          if k = [] then None
          else if 12 < length k then Some (take 8 k @ ''...'' @ rev (take 4 (rev k)))
          else Some (take 4 k @ ''...''))"

section \<open>RAG service (\<open>RAGService\<close>): cleaning file content\<close>

definition LF :: char where "LF = CHR 0x0A"
definition CR :: char where "CR = CHR 0x0D"
definition TAB :: char where "TAB = CHR 0x09"

text \<open>\<open>.replace(/\r\n/g, '\n')\<close>, \<open>.replace(/\r/g, '\n')\<close> and \<open>.replace(/\t/g, '  ')\<close>.\<close>

fun crlf_to_lf :: "string \<Rightarrow> string" where
  "crlf_to_lf (a # b # cs) =
     (if a = CR \<and> b = LF then LF # crlf_to_lf cs else a # crlf_to_lf (b # cs))"
| "crlf_to_lf cs = cs"

definition cr_to_lf :: "string \<Rightarrow> string" where
  "cr_to_lf s = map (\<lambda>c. if c = CR then LF else c) s"

definition tabs_to_spaces :: "string \<Rightarrow> string" where
  "tabs_to_spaces s = concat (map (\<lambda>c. if c = TAB then ''  '' else [c]) s)"

text \<open>
  \<open>.replace(/\n\s*\n\s*\n+/g, '\n\n')\<close>.  White space includes the line feed, so a match
  starts at a line feed whose run of white space holds at least three line feeds, and it
  ends with the last line feed of that run; the white space after it stays.  A run with
  fewer line feeds has no match at any of its positions.
\<close>

function collapse_blank_lines :: "string \<Rightarrow> string" where
  "collapse_blank_lines [] = []"
| "collapse_blank_lines (c # cs) =
     (if c = LF then
        (if 3 \<le> count_list (c # takeWhile js_whitespace cs) LF
         then [LF, LF] @ rev (takeWhile (\<lambda>x. x \<noteq> LF) (rev (c # takeWhile js_whitespace cs)))
                @ collapse_blank_lines (dropWhile js_whitespace cs)
         else (c # takeWhile js_whitespace cs) @ collapse_blank_lines (dropWhile js_whitespace cs))
      else c # collapse_blank_lines cs)"
  by pat_completeness auto
termination
  by (relation "measure length") (auto simp: length_dropWhile_le less_Suc_eq_le)

text \<open>
  What the RAG service takes from its surroundings.  The embedding and generation
  adapters, the identifier drawn from the clock and the random generator, the outcome of
  the database write and the clock are asked at a step number; the JSON and number
  formatting built-ins are functions.  An adapter that the model manager has not
  initialised counts as an adapter that throws.  \<open>json_pretty\<close> is
  \<open>JSON.stringify(JSON.parse(s), null, 2)\<close>, \<open>None\<close> when \<open>s\<close> is not JSON.
\<close>

record rag_env =
  embedText :: "nat \<Rightarrow> string \<Rightarrow> string + real list"
  generateWithContext :: "nat \<Rightarrow> string \<Rightarrow> (string \<times> json \<times> real) list \<Rightarrow> string + string"
  new_id :: "nat \<Rightarrow> string"
  insert_error :: "nat \<Rightarrow> string option"
  now_iso :: "nat \<Rightarrow> string"
  json_stringify :: "json \<Rightarrow> string"
  json_pretty :: "string \<Rightarrow> string option"
  toFixed1 :: "real \<Rightarrow> string"
  date_value :: "json \<Rightarrow> int"

definition cleanFileContent :: "rag_env \<Rightarrow> json \<Rightarrow> string \<Rightarrow> string" where
  "cleanFileContent env content filePath =
     (case content of
        JStr c \<Rightarrow>
          if c = [] then []
          else
            (let cleaned = collapse_blank_lines (js_trim (tabs_to_spaces (cr_to_lf (crlf_to_lf c))));
                 fileExt = toLowerCase (path_extname filePath)
             in if js_includes [''.json''] fileExt
                then (case json_pretty env cleaned of Some pretty \<Rightarrow> pretty | None \<Rightarrow> cleaned)
                else cleaned)
      | _ \<Rightarrow> [])"

section \<open>RAG service: the document store and ingestion\<close>

text \<open>
  A row of the \<open>documents\<close> table.  The metadata column holds the JSON text of the metadata
  object and is parsed when rows are read; the row keeps the object itself.  The
  embedding is a vector of numbers, idealised as reals, or absent.
\<close>

record document =
  doc_id :: string
  doc_text :: string
  doc_metadata :: json
  doc_embedding :: "real list option"

record rag_state =
  db :: "document list"
  tick :: nat

text \<open>
  \<open>INSERT ... ON CONFLICT(id) DO UPDATE\<close>: a row with the same identifier is overwritten
  in place, otherwise the row is appended.
\<close>

definition upsert :: "document \<Rightarrow> document list \<Rightarrow> document list" where
  "upsert d rows =
     (if doc_id d \<in> doc_id ` set rows
      then map (\<lambda>r. if doc_id r = doc_id d then d else r) rows
      else rows @ [d])"

definition allDocs :: "rag_state \<Rightarrow> document list" where
  "allDocs s = db s"

record ingested =
  ingested_id :: string
  ingested_status :: string

definition ingestDocument ::
  "rag_env \<Rightarrow> string \<Rightarrow> json \<Rightarrow> rag_state \<Rightarrow> (string + ingested) \<times> rag_state" where
  "ingestDocument env text metadata s =
     (let id = new_id env (tick s);
          embeddingText = text @ [LF] @ json_stringify env metadata;
          s' = s\<lparr>tick := Suc (tick s)\<rparr>
      in case embedText env (tick s) embeddingText of
           Inl message \<Rightarrow> (Inl message, s')
         | Inr embedding \<Rightarrow>
             (case insert_error env (tick s) of
                Some message \<Rightarrow> (Inl message, s')
              | None \<Rightarrow>
                  (Inr \<lparr>ingested_id = id, ingested_status = ''ingested''\<rparr>,
                   s'\<lparr>db := upsert \<lparr>doc_id = id, doc_text = text, doc_metadata = metadata,
                                     doc_embedding = Some embedding\<rparr> (db s)\<rparr>)))"

text \<open>
  A commit payload.  Its metadata is an object, given by its properties; a file has a
  path and a content, which is whatever JSON value the payload carries.
\<close>

record commit_file =
  path :: string
  content :: json

record commit_data =
  projectName :: json
  metadata :: "(string \<times> json) list"
  files :: "commit_file list"

datatype file_result =
  SuccessResult (file_path: string) (document_id: string) (content_length: nat)
  | ErrorResult (file_path: string) (error: string)

fun result_status :: "file_result \<Rightarrow> string" where
  "result_status (SuccessResult p i n) = ''success''"
| "result_status (ErrorResult p e) = ''error''"

record commit_summary =
  project_name :: json
  commit_metadata :: "(string \<times> json) list"
  total_files :: nat
  successful :: nat
  failed :: nat
  results :: "file_result list"

definition fileMetadata :: "rag_env \<Rightarrow> json \<Rightarrow> (string \<times> json) list \<Rightarrow> commit_file \<Rightarrow> nat \<Rightarrow> json" where
  "fileMetadata env pname meta file t =
     JObj [(''project_name'', pname),
           (''file_path'', JStr (path file)),
           (''author'', jprop (JObj meta) ''author''),
           (''commit_message'', jprop (JObj meta) ''commit-message''),
           (''commit_date'', jprop (JObj meta) ''date''),
           (''ingested_at'', JStr (now_iso env t)),
           (''file_type'', JStr (getFileType (path file))),
           (''commit_hash'', (if truthy (jprop (JObj meta) ''hash'')
                              then jprop (JObj meta) ''hash'' else JNull))]"

text \<open>
  One round of the loop of \<open>ingestCommit\<close>: \<open>None\<close> when the file is skipped by
  \<open>continue\<close>, the result pushed otherwise.  The \<open>catch\<close> block turns an error thrown by
  \<open>ingestDocument\<close> into an error result.
\<close>

definition ingest_file ::
  "rag_env \<Rightarrow> json \<Rightarrow> (string \<times> json) list \<Rightarrow> commit_file \<Rightarrow> rag_state
     \<Rightarrow> file_result option \<times> rag_state" where
  "ingest_file env pname meta file s =
     (let cleanContent = cleanFileContent env (content file) (path file)
      in if cleanContent = [] \<or> length (js_trim cleanContent) = 0 then (None, s)
         else case ingestDocument env cleanContent (fileMetadata env pname meta file (tick s)) s of
                (Inr result, s') \<Rightarrow>
                  (Some (SuccessResult (path file) (ingested_id result) (length cleanContent)), s')
              | (Inl message, s') \<Rightarrow> (Some (ErrorResult (path file) message), s'))"

fun ingest_files ::
  "rag_env \<Rightarrow> json \<Rightarrow> (string \<times> json) list \<Rightarrow> commit_file list \<Rightarrow> file_result list
     \<Rightarrow> rag_state \<Rightarrow> file_result list \<times> rag_state" where
  "ingest_files env pname meta [] acc s = (acc, s)"
| "ingest_files env pname meta (file # rest) acc s =
     (case ingest_file env pname meta file s of
        (None, s') \<Rightarrow> ingest_files env pname meta rest acc s'
      | (Some r, s') \<Rightarrow> ingest_files env pname meta rest (acc @ [r]) s')"

definition ingestCommit :: "rag_env \<Rightarrow> commit_data \<Rightarrow> rag_state \<Rightarrow> commit_summary \<times> rag_state" where
  "ingestCommit env commitData s =
     (case ingest_files env (projectName commitData) (metadata commitData) (files commitData) [] s of
        (rs, s') \<Rightarrow>
          (\<lparr>project_name = projectName commitData,
            commit_metadata = metadata commitData,
            total_files = length (files commitData),
            successful = length (filter (\<lambda>r. result_status r = ''success'') rs),
            failed = length (filter (\<lambda>r. result_status r = ''error'') rs),
            results = rs\<rparr>, s'))"

text \<open>The test of \<open>ingestCommit\<close> for an empty file, on the file itself.\<close>

definition cleaned_empty :: "rag_env \<Rightarrow> commit_file \<Rightarrow> bool" where
  "cleaned_empty env file = (js_trim (cleanFileContent env (content file) (path file)) = [])"

text \<open>
  An environment for examples: the embedding adapter answers except at step 1, where the
  connection is refused; \<open>JSON.stringify\<close> is not spelled out, and numbers are formatted
  near 100, near 0 and near -100 only.
\<close>

definition flaky_env :: rag_env where
  "flaky_env =
     \<lparr>embedText = (\<lambda>t s. if t = 1 then Inl ''connect ECONNREFUSED'' else Inr [1, 0]),
      generateWithContext = (\<lambda>t q hits. Inr ''answer''),
      new_id = (\<lambda>t. ''doc-'' @ replicate t CHR ''x''),
      insert_error = (\<lambda>t. None),
      now_iso = (\<lambda>t. ''2024-06-01T12:00:00.000Z''),
      json_stringify = (\<lambda>j. ''{}''),
      json_pretty = (\<lambda>s. None),
      toFixed1 = (\<lambda>r. if 9995 / 100 \<le> r \<and> r < 10005 / 100 then ''100.0''
                       else if - 5 / 100 < r \<and> r < 5 / 100 then ''0.0''
                       else if - 10005 / 100 < r \<and> r \<le> - 9995 / 100 then ''-100.0''
                       else ''?''),
      date_value = (\<lambda>j. 0)\<rparr>"

definition sample_commit :: commit_data where
  "sample_commit =
     \<lparr>projectName = JStr ''demo'',
      metadata = [(''author'', JStr ''Ann''), (''commit-message'', JStr ''init''),
                  (''date'', JStr ''2024-06-01'')],
      files = [\<lparr>path = ''a.js'', content = JStr ''let a = 1''\<rparr>,
               \<lparr>path = ''blank.txt'', content = JStr [CHR '' '', LF, TAB]\<rparr>,
               \<lparr>path = ''c.js'', content = JStr ''let c = 3''\<rparr>,
               \<lparr>path = ''d.js'', content = JStr ''let d = 4''\<rparr>]\<rparr>"

definition empty_store :: rag_state where
  "empty_store = \<lparr>db = [], tick = 0\<rparr>"

section \<open>RAG service: similarity search\<close>

text \<open>
  The loop of \<open>cosine\<close>, with its three running sums.  JavaScript numbers are idealised
  as real numbers: rounding, overflow and \<open>NaN\<close> are not modelled.
\<close>

fun cosine_sums :: "real list \<Rightarrow> real list \<Rightarrow> real \<times> real \<times> real \<Rightarrow> real \<times> real \<times> real" where
  "cosine_sums (x # xs) (y # ys) (dot, na, nb) =
     cosine_sums xs ys (dot + x * y, na + x * x, nb + y * y)"
| "cosine_sums xs ys totals = totals"

definition cosine :: "real list option \<Rightarrow> real list option \<Rightarrow> real" where
  "cosine a b =
     (case (a, b) of
        (Some u, Some v) \<Rightarrow>
          if length u \<noteq> length v then - 1
          else (case cosine_sums u v (0, 0, 0) of
                  (dot, na, nb) \<Rightarrow> dot / (sqrt na * sqrt nb + 1 / 10 ^ 8))
      | _ \<Rightarrow> - 1)"

record scored = document +
  score :: real

record source =
  source_file_path :: json
  source_author :: json
  source_commit_message :: json
  source_commit_date :: json
  relevance_score :: string
  preview :: string

record search_result =
  result_query :: string
  answer :: string
  project :: "string option"
  sources :: "source list"

text \<open>
  \<open>xs.slice(0, k)\<close>: the first \<open>k\<close> elements, and for a negative \<open>k\<close> all but the last
  \<open>-k\<close>.
\<close>

definition slice_to :: "'a list \<Rightarrow> int \<Rightarrow> 'a list" where
  "slice_to xs k = (if 0 \<le> k then take (nat k) xs else take (length xs - nat (- k)) xs)"

text \<open>
  \<open>scored.sort((a, b) => b.score - a.score)\<close>: a stable sort, highest score first.
\<close>

definition sort_by_score :: "scored list \<Rightarrow> scored list" where
  "sort_by_score hits = sort_key (\<lambda>h. - score h) hits"

definition with_score :: "real list \<Rightarrow> document \<Rightarrow> scored" where
  "with_score queryEmbedding d =
     document.extend d (scored.fields (cosine (Some queryEmbedding) (doc_embedding d)))"

definition source_of :: "rag_env \<Rightarrow> scored \<Rightarrow> source" where
  "source_of env r =
     \<lparr>source_file_path = jprop (doc_metadata r) ''file_path'',
      source_author = jprop (doc_metadata r) ''author'',
      source_commit_message = jprop (doc_metadata r) ''commit_message'',
      source_commit_date = jprop (doc_metadata r) ''commit_date'',
      relevance_score = toFixed1 env (score r * 100) @ ''%'',
      preview = doc_text r\<rparr>"

text \<open>
  The documents that \<open>searchAndGenerate\<close> ranks, and its ranking.  The project filter
  applies when a non-empty project name is given.
\<close>

definition candidates :: "string option \<Rightarrow> document list \<Rightarrow> document list" where
  "candidates pname docs =
     (if key_present pname
      then filter (\<lambda>d. jprop (doc_metadata d) ''project_name'' = JStr (the pname)) docs
      else docs)"

definition topResults :: "real list \<Rightarrow> int \<Rightarrow> string option \<Rightarrow> document list \<Rightarrow> scored list" where
  "topResults queryEmbedding k pname docs =
     slice_to (sort_by_score (map (with_score queryEmbedding) (candidates pname docs))) k"

text \<open>
  The prompt given to the generation adapter is a text made of the query and of the
  text, metadata and score of each top result, so the adapter is asked with these.
\<close>

definition searchAndGenerate ::
  "rag_env \<Rightarrow> string \<Rightarrow> int \<Rightarrow> string option \<Rightarrow> rag_state \<Rightarrow> (string + search_result) \<times> rag_state" where
  "searchAndGenerate env query k pname s =
     (case embedText env (tick s) query of
        Inl message \<Rightarrow> (Inl message, s\<lparr>tick := Suc (tick s)\<rparr>)
      | Inr queryEmbedding \<Rightarrow>
          (let top = topResults queryEmbedding k pname (allDocs s);
               s' = s\<lparr>tick := Suc (Suc (tick s))\<rparr>
           in case generateWithContext env (Suc (tick s)) query
                     (map (\<lambda>h. (doc_text h, doc_metadata h, score h)) top) of
                Inl message \<Rightarrow> (Inl message, s')
              | Inr reply \<Rightarrow>
                  (Inr \<lparr>result_query = query, answer = reply, project = pname,
                        sources = map (source_of env) top\<rparr>, s')))"

section \<open>RAG service: project list and demo data\<close>

text \<open>
  The elements of a JavaScript \<open>Set\<close> built from a list: first occurrences, in order.
  In \<open>getProjects\<close> the call \<open>projectDocs.sort(...)\<close> sorts the array of a project in
  place, latest commit first, so the authors are read from the sorted array.
\<close>

definition set_order :: "'a list \<Rightarrow> 'a list" where
  "set_order xs = rev (remdups (rev xs))"

record project_info =
  name :: json
  documents :: nat
  last_updated :: json
  authors :: "json list"

definition getProjects :: "rag_env \<Rightarrow> rag_state \<Rightarrow> project_info list" where
  "getProjects env s =
     (let docs = allDocs s;
          projects = set_order (map (\<lambda>d. jprop (doc_metadata d) ''project_name'') docs)
      in map (\<lambda>pname.
                let projectDocs = filter (\<lambda>d. jprop (doc_metadata d) ''project_name'' = pname) docs;
                    byDate = sort_key (\<lambda>d. - date_value env (jprop (doc_metadata d) ''commit_date''))
                               projectDocs
                in \<lparr>name = pname,
                    documents = length projectDocs,
                    last_updated = (case byDate of [] \<Rightarrow> JNull
                                    | latestDoc # _ \<Rightarrow> jprop (doc_metadata latestDoc) ''commit_date''),
                    authors = set_order (filter truthy
                                (map (\<lambda>d. jprop (doc_metadata d) ''author'') byDate))\<rparr>)
             projects)"

function show_nat :: "nat \<Rightarrow> string" where
  "show_nat n =
     (if n < 10 then [''0123456789'' ! n]
      else show_nat (n div 10) @ [''0123456789'' ! (n mod 10)])"
  by pat_completeness auto
termination
  by (relation "measure id") auto

definition demo_text :: "nat \<Rightarrow> string" where
  "demo_text i =
     ''// Demo function '' @ show_nat i @ [LF]
     @ ''function demoFunction'' @ show_nat i @ ''(input) {'' @ [LF]
     @ ''  // This function multiplies input by '' @ show_nat (i + 1) @ [LF]
     @ ''  return input * '' @ show_nat (i + 1) @ '';'' @ [LF]
     @ ''}''"

definition demo_metadata :: "rag_env \<Rightarrow> nat \<Rightarrow> nat \<Rightarrow> json" where
  "demo_metadata env i t =
     JObj [(''project_name'', JStr ''demo-project''),
           (''file_path'', JStr (''src/demo/file'' @ show_nat i @ ''.js'')),
           (''author'', JStr ([''Alice'', ''Bob'', ''Charlie''] ! (i mod 3))),
           (''commit_date'', JStr (takeWhile (\<lambda>c. c \<noteq> CHR ''T'') (now_iso env t))),
           (''commit_message'', JStr (''Add demo function '' @ show_nat i)),
           (''file_type'', JStr ''javascript'')]"

text \<open>
  The loop of \<open>bulkIngestDemo\<close>, from index \<open>i\<close> with \<open>n\<close> rounds to go.  An error thrown
  by \<open>ingestDocument\<close> ends the loop and the call.
\<close>

fun bulk_loop ::
  "rag_env \<Rightarrow> nat \<Rightarrow> nat \<Rightarrow> ingested list \<Rightarrow> rag_state \<Rightarrow> (string + ingested list) \<times> rag_state" where
  "bulk_loop env i 0 acc s = (Inr acc, s)"
| "bulk_loop env i (Suc n) acc s =
     (case ingestDocument env (demo_text i) (demo_metadata env i (tick s)) s of
        (Inl message, s') \<Rightarrow> (Inl message, s')
      | (Inr result, s') \<Rightarrow> bulk_loop env (Suc i) n (acc @ [result]) s')"

record bulk_result =
  ingested_count :: nat
  ingested_results :: "ingested list"

definition bulkIngestDemo :: "rag_env \<Rightarrow> nat \<Rightarrow> rag_state \<Rightarrow> (string + bulk_result) \<times> rag_state" where
  "bulkIngestDemo env n s =
     (case bulk_loop env 0 n [] s of
        (Inl message, s') \<Rightarrow> (Inl message, s')
      | (Inr rs, s') \<Rightarrow> (Inr \<lparr>ingested_count = length rs, ingested_results = rs\<rparr>, s'))"

text \<open>The operations of the RAG service on the store, and the store after each.\<close>

datatype rag_op =
  IngestDocument string json
  | IngestCommit commit_data
  | SearchAndGenerate string int "string option"
  | GetProjects
  | BulkIngestDemo nat

fun run_op :: "rag_env \<Rightarrow> rag_op \<Rightarrow> rag_state \<Rightarrow> rag_state" where
  "run_op env (IngestDocument text meta) s = snd (ingestDocument env text meta s)"
| "run_op env (IngestCommit commitData) s = snd (ingestCommit env commitData s)"
| "run_op env (SearchAndGenerate query k pname) s = snd (searchAndGenerate env query k pname s)"
| "run_op env GetProjects s = s"
| "run_op env (BulkIngestDemo n) s = snd (bulkIngestDemo env n s)"

fun run_ops :: "rag_env \<Rightarrow> rag_op list \<Rightarrow> rag_state \<Rightarrow> rag_state" where
  "run_ops env [] s = s"
| "run_ops env (op # ops) s = run_ops env ops (run_op env op s)"

text \<open>
  Two ways in which a later store keeps the rows of an earlier one: every identifier is
  still there and the table is no shorter; or, stronger, the earlier rows are all still
  there as they were, in place, with rows added behind them.
\<close>

definition keeps_ids :: "rag_state \<Rightarrow> rag_state \<Rightarrow> bool" where
  "keeps_ids s s' =
     (doc_id ` set (db s) \<subseteq> doc_id ` set (db s') \<and> length (db s) \<le> length (db s'))"

definition keeps_rows :: "rag_state \<Rightarrow> rag_state \<Rightarrow> bool" where
  "keeps_rows s s' = (take (length (db s)) (db s') = db s)"

text \<open>
  Identifiers drawn from now on are new: none is in the store, and no two are the same.
\<close>

definition fresh_ids :: "rag_env \<Rightarrow> rag_state \<Rightarrow> bool" where
  "fresh_ids env s =
     (inj_on (new_id env) {tick s..} \<and> (\<forall>t\<ge>tick s. new_id env t \<notin> doc_id ` set (db s)))"

definition advances :: "rag_env \<Rightarrow> rag_state \<Rightarrow> rag_state \<Rightarrow> bool" where
  "advances env s s' =
     (tick s \<le> tick s' \<and> (fresh_ids env s \<longrightarrow> fresh_ids env s' \<and> keeps_rows s s'))"

text \<open>A store holding one row, written before the identifiers of \<open>flaky_env\<close> are drawn.\<close>

definition seed_store :: rag_state where
  "seed_store =
     \<lparr>db = [\<lparr>doc_id = ''seed'', doc_text = ''let s = 0'',
              doc_metadata = JObj [(''project_name'', JStr ''demo''), (''file_path'', JStr ''s.js'')],
              doc_embedding = Some [0, 1]\<rparr>],
      tick = 0\<rparr>"

definition sample_ops :: "rag_op list" where
  "sample_ops =
     [BulkIngestDemo 2, IngestCommit sample_commit, SearchAndGenerate ''let'' 2 None, GetProjects]"

text \<open>
  A store of three documents whose embeddings point against, across and along the first
  axis, in that order.
\<close>

definition axis_store :: rag_state where
  "axis_store =
     \<lparr>db = [\<lparr>doc_id = ''doc-c'', doc_text = ''let c = 3'',
              doc_metadata = JObj [(''project_name'', JStr ''demo''), (''file_path'', JStr ''c.js'')],
              doc_embedding = Some [- 1, 0]\<rparr>,
             \<lparr>doc_id = ''doc-b'', doc_text = ''let b = 2'',
              doc_metadata = JObj [(''project_name'', JStr ''demo''), (''file_path'', JStr ''b.js'')],
              doc_embedding = Some [0, 1]\<rparr>,
             \<lparr>doc_id = ''doc-a'', doc_text = ''let a = 1'',
              doc_metadata = JObj [(''project_name'', JStr ''demo''), (''file_path'', JStr ''a.js'')],
              doc_embedding = Some [1, 0]\<rparr>],
      tick = 0\<rparr>"

text \<open>
  A store with documents of two projects; the document of the other project is the one
  closest to the first axis.
\<close>

definition mixed_store :: rag_state where
  "mixed_store =
     \<lparr>db = [\<lparr>doc_id = ''doc-c'', doc_text = ''let c = 3'',
              doc_metadata = JObj [(''project_name'', JStr ''demo''), (''file_path'', JStr ''c.js'')],
              doc_embedding = Some [- 1, 0]\<rparr>,
             \<lparr>doc_id = ''doc-a'', doc_text = ''let a = 1'',
              doc_metadata = JObj [(''project_name'', JStr ''other''), (''file_path'', JStr ''a.js'')],
              doc_embedding = Some [1, 0]\<rparr>,
             \<lparr>doc_id = ''doc-b'', doc_text = ''let b = 2'',
              doc_metadata = JObj [(''project_name'', JStr ''demo''), (''file_path'', JStr ''b.js'')],
              doc_embedding = Some [0, 1]\<rparr>],
      tick = 0\<rparr>"

section \<open>Analytics service: code metrics (\<open>calculateCodeMetrics\<close>)\<close>

text \<open>\<open>content.split('\n')\<close>: the lines of a text; the empty text has one, empty, line.\<close>

fun split_lines :: "string \<Rightarrow> string list" where
  "split_lines [] = [[]]"
| "split_lines (c # cs) =
     (if c = LF then [] # split_lines cs
      else (case split_lines cs of [] \<Rightarrow> [[c]] | l # ls \<Rightarrow> (c # l) # ls))"

definition is_comment_line :: "string \<Rightarrow> bool" where
  "is_comment_line line =
     (startsWith (js_trim line) ''//'' \<or> startsWith (js_trim line) ''/*''
      \<or> startsWith (js_trim line) ''*'' \<or> startsWith (js_trim line) ''#'')"

text \<open>
  The pattern \<open>\bKW\b\<close>.  A word character is a letter, a digit or the underscore; \<open>\b\<close>
  holds between two positions of which exactly one is a word character, the outside of
  the text counting as none.  \<open>kw_at kw p r\<close>: the pattern matches where the text \<open>r\<close>
  remains and \<open>p\<close> is the character before it.
\<close>

definition is_word :: "char option \<Rightarrow> bool" where
  "is_word c =
     (case c of
        None \<Rightarrow> False
      | Some x \<Rightarrow> x \<in> set (upper_letters @ lower_letters @ ''0123456789_''))"

definition word_boundary :: "char option \<Rightarrow> char option \<Rightarrow> bool" where
  "word_boundary p n = (is_word p \<noteq> is_word n)"

definition kw_at :: "string \<Rightarrow> char option \<Rightarrow> string \<Rightarrow> bool" where
  "kw_at kw p r =
     (startsWith r kw \<and> word_boundary p (Some (hd kw))
      \<and> word_boundary (Some (last kw))
           (case drop (length kw) r of [] \<Rightarrow> None | c # cs \<Rightarrow> Some c))"

text \<open>
  \<open>(content.match(regex) || []).length\<close> with the \<open>g\<close> flag: the matches are looked for
  from left to right, each search starting where the last match ended.
\<close>

function count_matches :: "string \<Rightarrow> char option \<Rightarrow> string \<Rightarrow> nat" where
  "count_matches kw p [] = 0"
| "count_matches kw p (c # cs) =
     (if kw \<noteq> [] \<and> kw_at kw p (c # cs)
      then Suc (count_matches kw (Some (last kw)) (drop (length kw) (c # cs)))
      else count_matches kw (Some c) cs)"
  by pat_completeness auto
termination
  by (relation "measure (\<lambda>(kw, p, r). length r)") auto

text \<open>
  The keyword is pasted into the pattern as it is.  For the keyword \<open>||\<close> the pattern is
  \<open>\b||\b\<close>, in which the bars separate three alternatives, the middle one empty: it
  matches the empty text at every position, so the number of matches is the length of
  the content plus one.  The other keywords have no character with a meaning of its own
  in a pattern.
\<close>

definition keyword_matches :: "string \<Rightarrow> string \<Rightarrow> nat" where
  "keyword_matches keyword src =
     (if keyword = ''||'' then Suc (length src) else count_matches keyword None src)"

definition complexityKeywords :: "string list" where
  "complexityKeywords =
     [''if'', ''else'', ''for'', ''while'', ''switch'', ''case'', ''catch'', ''&&'', ''||'']"

text \<open>
  The maintainability index as a function of the three metrics it is computed from.
  Numbers are real numbers; the three logarithms are taken of positive numbers only.
\<close>

definition maintainability :: "nat \<Rightarrow> nat \<Rightarrow> real \<Rightarrow> real" where
  "maintainability cc loc cr =
     max 0 (171 - 5.2 * ln (real cc) - 0.23 * ln (real loc) - 16.2 * ln (cr + 0.1))"

text \<open>
  The metrics that enter the maintainability index, and the two scores derived with it.
  The result of \<open>calculateCodeMetrics\<close> has further fields (the counts of functions,
  classes, methods, variables and imports, the cognitive complexity and the number of
  code smells), each computed from the content by patterns of its own; they are left out.
\<close>

record code_metrics =
  linesOfCode :: nat
  commentRatio :: real
  cyclomaticComplexity :: nat
  maintainabilityIndex :: real
  technicalDebtRatio :: real
  securityScore :: int

definition calculateCodeMetrics :: "string \<Rightarrow> code_metrics" where
  "calculateCodeMetrics src =
     (let lines = split_lines src;
          loc = length lines;
          commentLines = length (filter is_comment_line lines);
          cr = (if loc > 0 then real commentLines / real loc else 0);
          cc = fold (\<lambda>keyword sum. sum + keyword_matches keyword src) complexityKeywords 1;
          mi = maintainability cc loc cr
      in \<lparr>linesOfCode = loc, commentRatio = cr, cyclomaticComplexity = cc,
          maintainabilityIndex = mi,
          technicalDebtRatio = max 0 (100 - mi) / 100,
          securityScore = calculateSecurityScore src\<rparr>)"

chapter \<open>Properties\<close>

section \<open>File-type classification\<close>

lemma lower_char_dot: "(lower_char c = CHR ''.'') = (c = CHR ''.'')"
proof
  assume a: "lower_char c = CHR ''.''"
  show "c = CHR ''.''"
  proof (rule ccontr)
    assume n: "c \<noteq> CHR ''.''"
    with a have moved: "char_of ((of_char c :: nat) + 32) = CHR ''.''"
      and range: "(of_char c :: nat) \<le> 222" "65 \<le> (of_char c :: nat)"
      by (auto simp: lower_char_def split: if_splits)
    from moved have "(of_char (char_of ((of_char c :: nat) + 32)) :: nat) = of_char CHR ''.''"
      by simp
    then have "((of_char c :: nat) + 32) mod 256 = 46"
      by simp
    with range show False
      by simp
  qed
next
  assume "c = CHR ''.''"
  then show "lower_char c = CHR ''.''"
    by (simp add: lower_char_def)
qed

lemma ext_of_component_lower:
  "ext_of_component (toLowerCase b) = toLowerCase (ext_of_component b)"
proof -
  let ?P = "\<lambda>c. c \<noteq> CHR ''.''"
  have p: "?P \<circ> lower_char = ?P"
    by (auto simp: fun_eq_iff lower_char_dot)
  have tw: "takeWhile ?P (rev (map lower_char b)) = map lower_char (takeWhile ?P (rev b))"
    by (simp add: rev_map takeWhile_map p)
  have dw: "dropWhile ?P (rev (map lower_char b)) = map lower_char (dropWhile ?P (rev b))"
    by (simp add: rev_map dropWhile_map p)
  have d: "(map lower_char b = ''..'') = (b = ''..'')"
    by (auto simp: lower_char_dot map_eq_Cons_conv)
  have l: "lower_char CHR ''.'' = CHR ''.''"
    by (simp add: lower_char_dot)
  have t: "(tl (map lower_char xs) = []) = (tl xs = [])" for xs
    by (cases xs) auto
  show ?thesis
    unfolding ext_of_component_def toLowerCase_def Let_def tw dw d t
    by (auto simp add: l rev_map)
qed

text \<open>
  The extension that \<open>getFileType\<close> tests is determined by the lower-cased basename, so
  the basename decides the whole classification.
\<close>

lemma extname_of_basename:
  "toLowerCase (path_extname p) = ext_of_component (toLowerCase (path_basename p))"
  by (simp add: path_extname_def path_basename_def ext_of_component_lower)

lemma getFileType_basename_package_json:
  "toLowerCase (path_basename p) = ''package.json'' \<Longrightarrow> getFileType p = ''json''"
  by (simp add: getFileType_def extname_of_basename ext_of_component_def js_includes_def)

text \<open>
  The branch for \<open>package.json\<close> comes after the branch for the extension \<open>.json\<close>, so no
  path at all is classified \<open>package-config\<close>.
\<close>

lemma getFileType_never_package_config: "getFileType p \<noteq> ''package-config''"
proof
  assume a: "getFileType p = ''package-config''"
  have "toLowerCase (path_basename p) = ''package.json''"
    using a by (simp add: getFileType_def Let_def js_includes_def split: if_splits)
  then have "getFileType p = ''json''" by (rule getFileType_basename_package_json)
  with a show False by simp
qed

lemma getFileType_basename_dockerfile:
  "toLowerCase (path_basename p) = ''dockerfile'' \<Longrightarrow> getFileType p = ''docker''"
  by (simp add: getFileType_def extname_of_basename ext_of_component_def js_includes_def)

lemma getFileType_basename_env:
  "toLowerCase (path_basename p) = ''.env'' \<or> toLowerCase (path_basename p) = ''.env.example''
     \<Longrightarrow> getFileType p = ''environment''"
  by (auto simp add: getFileType_def extname_of_basename ext_of_component_def js_includes_def)

lemma getFileType_basename_makefile:
  "toLowerCase (path_basename p) = ''makefile'' \<Longrightarrow> getFileType p = ''makefile''"
  by (simp add: getFileType_def extname_of_basename ext_of_component_def js_includes_def)

lemma getFileType_examples:
  "getFileType ''src/app.py'' = ''python''"
  "getFileType ''Dockerfile'' = ''docker''"
  "getFileType ''.env'' = ''environment''"
  "getFileType ''README.md'' = ''markdown''"
  "getFileType ''unknown.xyz'' = ''unknown''"
  by code_simp+

text \<open>
  Claim C6.  The claim says that a file whose basename is \<open>package.json\<close> is classified
  \<open>package-config\<close>.  On the path \<open>package.json\<close> the function returns \<open>json\<close>: the
  extension table is consulted first and \<open>.json\<close> is in it.  The other basename rows of
  the claim (\<open>dockerfile\<close>, \<open>.env\<close>, \<open>.env.example\<close>, \<open>makefile\<close>) hold, see the lemmas
  above.
\<close>

theorem getFileType_package_json: "getFileType ''package.json'' = ''json''"
  by code_simp

section \<open>Security score\<close>

lemma startsWith_iff: "startsWith s p = (\<exists>r. s = p @ r)"
proof
  assume "startsWith s p"
  then have "s = p @ drop (length p) s"
    by (metis append_take_drop_id startsWith_def)
  then show "\<exists>r. s = p @ r" ..
next
  assume "\<exists>r. s = p @ r"
  then show "startsWith s p" by (auto simp: startsWith_def)
qed

lemma re_search_iff: "re_search m s = (\<exists>pre suf. s = pre @ suf \<and> m suf)"
proof (induction s)
  case Nil
  then show ?case by simp
next
  case (Cons x xs)
  show ?case
  proof
    assume "re_search m (x # xs)"
    then consider "m (x # xs)" | "re_search m xs" by auto
    then show "\<exists>pre suf. x # xs = pre @ suf \<and> m suf"
    proof cases
      case 1
      then have "x # xs = [] @ (x # xs) \<and> m (x # xs)" by simp
      then show ?thesis by blast
    next
      case 2
      then obtain pre suf where "xs = pre @ suf" "m suf" using Cons.IH by auto
      then have "x # xs = (x # pre) @ suf \<and> m suf" by simp
      then show ?thesis by blast
    qed
  next
    assume "\<exists>pre suf. x # xs = pre @ suf \<and> m suf"
    then obtain pre suf where ps: "x # xs = pre @ suf" "m suf" by auto
    show "re_search m (x # xs)"
    proof (cases pre)
      case Nil
      with ps have "m (x # xs)" by simp
      then show ?thesis by simp
    next
      case (Cons a pre')
      with ps have "xs = pre' @ suf" by simp
      with ps(2) have "re_search m xs" using Cons.IH by auto
      then show ?thesis by simp
    qed
  qed
qed

lemma re_kw_ws_ch_at_iff:
  assumes "\<not> js_whitespace c"
  shows "re_kw_ws_ch_at kw c s =
           (\<exists>ws post. s = kw @ ws @ c # post \<and> list_all js_whitespace ws)"
proof
  assume a: "re_kw_ws_ch_at kw c s"
  then obtain r where r: "s = kw @ r"
    by (auto simp: re_kw_ws_ch_at_def startsWith_iff)
  from a r obtain post where d: "dropWhile js_whitespace r = c # post"
    by (auto simp: re_kw_ws_ch_at_def split: list.splits)
  have "r = takeWhile js_whitespace r @ c # post"
    using d by (metis takeWhile_dropWhile_id)
  moreover have "list_all js_whitespace (takeWhile js_whitespace r)"
    by (simp add: list_all_iff) (meson set_takeWhileD)
  ultimately show "\<exists>ws post. s = kw @ ws @ c # post \<and> list_all js_whitespace ws"
    using r by blast
next
  assume "\<exists>ws post. s = kw @ ws @ c # post \<and> list_all js_whitespace ws"
  then obtain ws post where s: "s = kw @ ws @ c # post" and w: "list_all js_whitespace ws"
    by auto
  have "dropWhile js_whitespace (ws @ c # post) = c # post"
    using w assms by (simp add: list_all_iff dropWhile_append)
  then show "re_kw_ws_ch_at kw c s"
    using s by (simp add: re_kw_ws_ch_at_def startsWith_def)
qed

lemma search_spaced:
  "\<not> js_whitespace c \<Longrightarrow> re_search (re_kw_ws_ch_at kw c) s = occurs_spaced kw c s"
  unfolding re_search_iff occurs_spaced_def
  by (simp add: re_kw_ws_ch_at_iff) blast

lemma search_literal: "re_search (re_literal_at kw) s = occurs_literal kw s"
  unfolding re_search_iff occurs_literal_def re_literal_at_def startsWith_iff
  by blast

lemma pattern_chars_not_whitespace: "\<not> js_whitespace CHR ''(''" "\<not> js_whitespace CHR ''=''" "\<not> js_whitespace CHR ''+''"
  by (simp_all add: js_whitespace_def)

lemma calculateSecurityScore_range:
  "35 \<le> calculateSecurityScore src \<and> calculateSecurityScore src \<le> 100"
  by (simp add: calculateSecurityScore_def vulnerabilities_def)

text \<open>
  Claim C7.  For every content string the security score is 100 minus 20, 15, 15, 10 and 5
  for each of the five patterns that occurs in the content at least once, floored at 0.
  A pattern is charged once however often it occurs: content with one \<open>eval(\<close> call and
  content with five \<open>eval(\<close> calls both score 80.
\<close>

theorem calculateSecurityScore_per_pattern:
  "calculateSecurityScore src =
     max 0 (100 - (if occurs_spaced ''eval'' CHR ''('' src then 20 else 0)
                - (if occurs_spaced ''innerHTML'' CHR ''='' src then 15 else 0)
                - (if occurs_literal ''document.write'' src then 15 else 0)
                - (if occurs_spaced ''sql'' CHR ''+'' src then 10 else 0)
                - (if occurs_spaced ''password'' CHR ''='' src then 5 else 0))
   \<and> calculateSecurityScore ''eval(a)'' = 80
   \<and> calculateSecurityScore ''eval(a); eval (b); eval(c); eval(d); eval(e)'' = 80"
proof -
  have general: "calculateSecurityScore src =
     max 0 (100 - (if occurs_spaced ''eval'' CHR ''('' src then 20 else 0)
                - (if occurs_spaced ''innerHTML'' CHR ''='' src then 15 else 0)
                - (if occurs_literal ''document.write'' src then 15 else 0)
                - (if occurs_spaced ''sql'' CHR ''+'' src then 10 else 0)
                - (if occurs_spaced ''password'' CHR ''='' src then 5 else 0))"
    by (simp add: calculateSecurityScore_def vulnerabilities_def search_spaced search_literal
        pattern_chars_not_whitespace)
  have once: "calculateSecurityScore ''eval(a)'' = 80"
    by code_simp
  have five: "calculateSecurityScore ''eval(a); eval (b); eval(c); eval(d); eval(e)'' = 80"
    by code_simp
  from general once five show ?thesis by blast
qed

theorem calculateSecurityScore_per_pattern_witness:
  "0 \<le> calculateSecurityScore ''password = 1'' \<and> calculateSecurityScore ''eval(a)'' = 80"
  using calculateSecurityScore_per_pattern [of "''password = 1''"] by simp

section \<open>The loopback HTTP API\<close>

lemma failure_body_shape: "jprop (failure_body m) ''success'' = JBool False"
  by (simp add: failure_body_def)

lemma success_body_shape: "jprop (success_body v) ''success'' = JBool True"
  by (simp add: success_body_def)

lemma other_routes_fail_with_400_or_500:
  assumes "is_failure (cli_server rag now req)" and "\<forall>b. req \<noteq> PostQuery b"
  shows "status (cli_server rag now req) \<in> {400, 500}
       \<and> (\<exists>m. body (cli_server rag now req) = failure_body m)"
  using assms
  by (cases req)
     (auto simp: is_failure_def post_ingest_commit_def get_projects_def post_search_def
        post_ingest_def get_health_def res_json_def res_status_json_def success_body_def
        Let_def split: sum.splits if_splits)

lemma post_query_status: "status (cli_server rag now (PostQuery b)) = 200"
  by (simp add: post_query_def res_json_def split: sum.splits)

lemma post_search_failure_is_500:
  "cli_server rag_down now (PostSearch (JObj [(''query'', JStr ''what does init do?'')]))
     = \<lparr>status = 500, body = failure_body ''Embedding service not initialized''\<rparr>"
  by (simp add: post_search_def rag_down_def res_status_json_def with_default_def)


text \<open>
  Claim C9.  The claim says that every failing route answers with status 400 or 500, and
  names the legacy \<open>POST /query\<close> route.  When the service call of that route throws, the
  handler answers through \<open>res.json\<close> without setting a status: the body is
  \<open>{success: false, error}\<close> and the status is 200.  Every other route answers its
  failures with 400 or 500 (\<open>other_routes_fail_with_400_or_500\<close>); the same request sent
  to \<open>POST /search\<close> is answered with 500.
\<close>

theorem post_query_failure_is_200:
  "cli_server rag_down now (PostQuery (JObj [(''query'', JStr ''what does init do?'')]))
     = \<lparr>status = 200, body = failure_body ''Embedding service not initialized''\<rparr>"
  by (simp add: post_query_def rag_down_def res_json_def)

section \<open>Model manager: \<open>getConfig\<close>\<close>

lemma last_four: "rev (take 4 (rev k)) = drop (length k - 4) k"
  by (simp add: take_rev)

lemma getMaskedApiKey_spec:
  "getMaskedApiKey c ''gemini'' = masked_spec (geminiApiKey c)"
  "getMaskedApiKey c ''huggingface'' = masked_spec (huggingfaceApiKey c)"
  "getMaskedApiKey c ''openai'' = masked_spec (openaiApiKey c)"
  by (auto simp: getMaskedApiKey_def masked_spec_def key_present_def last_four
      split: option.splits)

lemma masked_key_examples:
  "masked_spec (Some ''12345678901234567890'') = Some ''12345678...7890''"
  "masked_spec (Some ''12345678'') = Some ''1234...''"
  by (simp_all add: masked_spec_def)

text \<open>
  Claim C1, as amended.  \<open>getConfig\<close> returns every field of the stored configuration
  unchanged, the three API keys among them in full, and adds \<open>maskedKeys\<close> (one masked
  value per key field, following the masking rule) and \<open>configured\<close> (the local provider
  always, the hosted-generative provider exactly when a key is stored).  Masking applies
  to the entries of \<open>maskedKeys\<close> only.
\<close>

theorem getConfig_returns_raw_keys:
  "llmProvider (getConfig c) = llmProvider c
   \<and> embeddingProvider (getConfig c) = embeddingProvider c
   \<and> ollamaModel (getConfig c) = ollamaModel c
   \<and> geminiApiKey (getConfig c) = geminiApiKey c
   \<and> huggingfaceApiKey (getConfig c) = huggingfaceApiKey c
   \<and> openaiApiKey (getConfig c) = openaiApiKey c
   \<and> lastUpdated (getConfig c) = lastUpdated c
   \<and> version (getConfig c) = version c
   \<and> maskedKeys (getConfig c) =
         \<lparr>gemini = masked_spec (geminiApiKey c),
          huggingface = masked_spec (huggingfaceApiKey c),
          openai = masked_spec (openaiApiKey c)\<rparr>
   \<and> configured (getConfig c) =
         \<lparr>ollama_configured = True, gemini_configured = key_present (geminiApiKey c)\<rparr>"
  by (simp add: getConfig_def model_config.defs config_view.defs getMaskedApiKey_spec
      isProviderConfigured_def)

theorem getConfig_returns_raw_keys_witness:
  "geminiApiKey (getConfig keyed_config) = Some ''AIzaSyD-0123456789abcdef''
   \<and> gemini (maskedKeys (getConfig keyed_config)) = Some ''AIzaSyD-...cdef''"
  using getConfig_returns_raw_keys [of keyed_config]
  by (simp add: keyed_config_def default_config_def masked_spec_def)

text \<open>
  Claim C1 as stated fails: with a key stored, the value returned by \<open>getConfig\<close> carries
  that very key, unmasked, in its field \<open>geminiApiKey\<close>.
\<close>

theorem getConfig_raw_key_counterexample:
  "key_present (geminiApiKey keyed_config)
   \<and> geminiApiKey (getConfig keyed_config) = geminiApiKey keyed_config
   \<and> geminiApiKey (getConfig keyed_config) = Some ''AIzaSyD-0123456789abcdef''"
  by (simp add: getConfig_def model_config.defs config_view.defs keyed_config_def
      default_config_def key_present_def)

section \<open>Model manager: switching providers\<close>

lemma saveConfig_config:
  "config (saveConfig w m) = (config m)\<lparr>lastUpdated := clock w (step m)\<rparr>"
  by (simp add: saveConfig_def Let_def)

lemma saveConfig_saved:
  "file_writable w (step m) \<Longrightarrow> saved (saveConfig w m) = Some (config (saveConfig w m))"
  by (simp add: saveConfig_def Let_def)

lemma initializeLLM_ollama_config:
  "initializeLLM_ollama w m = (r, m') \<Longrightarrow> config m' = config m \<and> saved m' = saved m"
  by (auto simp: initializeLLM_ollama_def ollama_initialize_def split: if_splits)

lemma gemini_initialize_config:
  "gemini_initialize w k m = (r, m') \<Longrightarrow> config m' = config m \<and> saved m' = saved m"
  by (auto simp: gemini_initialize_def split: if_splits option.splits)

text \<open>
  \<open>initializeLLM\<close> touches two fields of the configuration only: the time stamp, and the
  provider when it falls back from the hosted provider without a key to the local one.
\<close>

lemma initializeLLM_config:
  assumes "initializeLLM w m = (r, m')"
  shows "llmProvider (config m') =
           (if llmProvider (config m) = ''gemini'' \<and> \<not> key_present (geminiApiKey (config m))
            then ''ollama'' else llmProvider (config m))"
    and "embeddingProvider (config m') = embeddingProvider (config m)"
    and "ollamaModel (config m') = ollamaModel (config m)"
    and "geminiApiKey (config m') = geminiApiKey (config m)"
    and "huggingfaceApiKey (config m') = huggingfaceApiKey (config m)"
    and "openaiApiKey (config m') = openaiApiKey (config m)"
    and "version (config m') = version (config m)"
  using assms
  by (auto simp: initializeLLM_def saveConfig_config
      dest!: initializeLLM_ollama_config gemini_initialize_config split: if_splits)

lemma initializeLLM_saved:
  assumes "initializeLLM w m = (r, m')" and "saved m = Some (config m)"
    and "\<forall>t. file_writable w t"
  shows "saved m' = Some (config m')"
  using assms
  by (auto simp: initializeLLM_def saveConfig_def Let_def
      dest!: initializeLLM_ollama_config gemini_initialize_config split: if_splits)


lemma apply_llm_switch_config:
  "config (apply_llm_switch provider options m) = (config m)
     \<lparr>llmProvider := provider,
      geminiApiKey := (if provider = ''gemini'' \<and> key_present (apiKey options)
                       then apiKey options else geminiApiKey (config m)),
      ollamaModel := (if provider = ''ollama'' \<and> key_present (model options)
                      then the (model options) else ollamaModel (config m))\<rparr>"
  by (simp add: apply_llm_switch_def Let_def)

lemma setLLMProvider_failure:
  assumes first: "initializeLLM w (saveConfig w (apply_llm_switch provider options m)) = (Some err, m5)"
  shows "setLLMProvider w provider options m =
           (case initializeLLM w (saveConfig w (rollback_llm (llmProvider (config m)) m5)) of
              (None, m8) \<Rightarrow> (Some err, m8)
            | (Some error2, m8) \<Rightarrow> (Some error2, m8))"
  using first by (simp add: setLLMProvider_def Let_def)


lemma setEmbeddingProvider_no_rollback:
  "embeddingProvider (config (snd (setEmbeddingProvider w p key m))) = p"
  "file_writable w (step m) \<Longrightarrow>
     saved (snd (setEmbeddingProvider w p key m)) = Some (config (snd (setEmbeddingProvider w p key m)))"
  "(fst (setEmbeddingProvider w p key m) \<noteq> None) = (p \<noteq> [] \<and> p \<notin> {''ollama'', ''huggingface'', ''openai''})"
  by (auto simp: setEmbeddingProvider_def initializeEmbedding_def Let_def saveConfig_def
      embedding_initialize_def)

lemmas manager_eval =
  initializeLLM_def saveConfig_def apply_llm_switch_def manager0_def gemini_down_def
  default_config_def key_present_def gemini_initialize_def gemini_testConnection_def
  gemini_generateWithContext_def initializeLLM_ollama_def
  ollama_initialize_def setLLMProvider_def rollback_llm_def setEmbeddingProvider_def
  initializeEmbedding_def embedding_initialize_def Let_def

lemma saveConfig_step: "step (saveConfig w m) = Suc (step m)"
  by (simp add: saveConfig_def Let_def)

text \<open>
  The time stamp and the file after \<open>initializeLLM\<close>: both are touched only by the save of
  the fall-back from the hosted provider without a key.
\<close>

lemma initializeLLM_stamp:
  assumes "initializeLLM w m = (r, m')"
  shows "lastUpdated (config m') =
           (if llmProvider (config m) = ''gemini'' \<and> \<not> key_present (geminiApiKey (config m))
            then clock w (step m) else lastUpdated (config m))"
  using assms
  by (auto simp: initializeLLM_def saveConfig_config
      dest!: initializeLLM_ollama_config gemini_initialize_config split: if_splits)

lemma initializeLLM_file:
  assumes "initializeLLM w m = (r, m')"
  shows "llmProvider (config m) = ''gemini'' \<and> \<not> key_present (geminiApiKey (config m)) \<Longrightarrow>
           file_writable w (step m) \<Longrightarrow> saved m' = Some (config m')"
    and "\<not> (llmProvider (config m) = ''gemini'' \<and> \<not> key_present (geminiApiKey (config m))) \<Longrightarrow>
           saved m = Some (config m) \<Longrightarrow> saved m' = Some (config m')"
  using assms
  by (auto simp: initializeLLM_def saveConfig_def Let_def
      dest!: initializeLLM_ollama_config gemini_initialize_config split: if_splits)

lemma setEmbeddingProvider_stamp:
  "lastUpdated (config (snd (setEmbeddingProvider w p key m))) = clock w (step m)"
  by (auto simp: setEmbeddingProvider_def initializeEmbedding_def Let_def saveConfig_def)

lemma setEmbeddingProvider_frame:
  "llmProvider (config (snd (setEmbeddingProvider w p key m))) = llmProvider (config m)"
  "ollamaModel (config (snd (setEmbeddingProvider w p key m))) = ollamaModel (config m)"
  "geminiApiKey (config (snd (setEmbeddingProvider w p key m))) = geminiApiKey (config m)"
  "version (config (snd (setEmbeddingProvider w p key m))) = version (config m)"
  by (auto simp: setEmbeddingProvider_def initializeEmbedding_def Let_def saveConfig_def)

text \<open>
  Claim C2, as amended.  When the re-initialisation for the requested provider fails,
  \<open>setLLMProvider\<close> throws; the error is the original one whenever the re-initialisation
  with the previous provider succeeds.  Afterwards the provider is the previous one again
  (the local one instead, if the previous one was the hosted provider and no key is
  stored), an API key or model name taken from the options stays recorded, the time
  stamp \<open>lastUpdated\<close> is the time of the last save of the call, every other setting is as
  before, and the file holds the configuration in memory when that last save could write
  it.  \<open>setEmbeddingProvider\<close> does not roll back: after a failure the requested provider
  is the one recorded in memory, with the time stamp of the call's save, and in the file
  when that save could write it.
\<close>

theorem setLLMProvider_rolls_back_provider_only:
  assumes failed:
    "fst (initializeLLM w (saveConfig w (apply_llm_switch provider options m))) \<noteq> None"
  shows
    "fst (setLLMProvider w provider options m) \<noteq> None
     \<and> (fst (initializeLLM w (saveConfig w (rollback_llm (llmProvider (config m))
              (snd (initializeLLM w (saveConfig w (apply_llm_switch provider options m))))))) = None
          \<longrightarrow> fst (setLLMProvider w provider options m) =
                fst (initializeLLM w (saveConfig w (apply_llm_switch provider options m))))
     \<and> llmProvider (config (snd (setLLMProvider w provider options m))) =
          (if llmProvider (config m) = ''gemini''
              \<and> \<not> key_present (geminiApiKey (config (snd (setLLMProvider w provider options m))))
           then ''ollama'' else llmProvider (config m))
     \<and> geminiApiKey (config (snd (setLLMProvider w provider options m))) =
          (if provider = ''gemini'' \<and> key_present (apiKey options) then apiKey options
           else geminiApiKey (config m))
     \<and> ollamaModel (config (snd (setLLMProvider w provider options m))) =
          (if provider = ''ollama'' \<and> key_present (model options) then the (model options)
           else ollamaModel (config m))
     \<and> embeddingProvider (config (snd (setLLMProvider w provider options m))) =
          embeddingProvider (config m)
     \<and> huggingfaceApiKey (config (snd (setLLMProvider w provider options m))) =
          huggingfaceApiKey (config m)
     \<and> openaiApiKey (config (snd (setLLMProvider w provider options m))) = openaiApiKey (config m)
     \<and> version (config (snd (setLLMProvider w provider options m))) = version (config m)
     \<and> lastUpdated (config (snd (setLLMProvider w provider options m))) =
          clock w (last_save w provider options m)
     \<and> (file_writable w (last_save w provider options m) \<longrightarrow>
          saved (snd (setLLMProvider w provider options m)) =
            Some (config (snd (setLLMProvider w provider options m))))
     \<and> (fst (setEmbeddingProvider w p key m) \<noteq> None \<longrightarrow>
          embeddingProvider (config (snd (setEmbeddingProvider w p key m))) = p
          \<and> lastUpdated (config (snd (setEmbeddingProvider w p key m))) = clock w (step m)
          \<and> (file_writable w (step m) \<longrightarrow>
               saved (snd (setEmbeddingProvider w p key m)) =
                 Some (config (snd (setEmbeddingProvider w p key m)))))"
proof -
  let ?m4 = "saveConfig w (apply_llm_switch provider options m)"
  obtain err m5 where first: "initializeLLM w ?m4 = (Some err, m5)"
    using failed by (cases "initializeLLM w ?m4") auto
  let ?m7 = "saveConfig w (rollback_llm (llmProvider (config m)) m5)"
  obtain r2 m8 where second: "initializeLLM w ?m7 = (r2, m8)"
    by (cases "initializeLLM w ?m7") auto
  have res: "setLLMProvider w provider options m = ((case r2 of None \<Rightarrow> Some err | Some e2 \<Rightarrow> Some e2), m8)"
    using first second by (simp add: setLLMProvider_def Let_def split: option.splits)
  have thrown: "fst (setLLMProvider w provider options m) \<noteq> None"
    using res by (simp split: option.splits)
  have original: "r2 = None \<longrightarrow> fst (setLLMProvider w provider options m) = Some err"
    using res by simp
  note c5 = initializeLLM_config [OF first]
  note c8 = initializeLLM_config [OF second]
  have c4: "config ?m4 = (config (apply_llm_switch provider options m))\<lparr>lastUpdated := clock w (step (apply_llm_switch provider options m))\<rparr>"
    by (rule saveConfig_config)
  have c7: "config ?m7 = (config m5)\<lparr>llmProvider := llmProvider (config m), lastUpdated := clock w (step m5)\<rparr>"
    by (simp add: saveConfig_config rollback_llm_def)
  have s7: "step ?m7 = Suc (step m5)"
    by (simp add: saveConfig_step rollback_llm_def)
  have key5: "geminiApiKey (config m5) = geminiApiKey (config (apply_llm_switch provider options m))"
    using c5(4) by (simp add: c4)
  have key: "geminiApiKey (config m8) =
          (if provider = ''gemini'' \<and> key_present (apiKey options) then apiKey options
           else geminiApiKey (config m))"
    using c8(4) c5(4) by (simp add: c7 c4 apply_llm_switch_config)
  have mdl: "ollamaModel (config m8) =
          (if provider = ''ollama'' \<and> key_present (model options) then the (model options)
           else ollamaModel (config m))"
    using c8(3) c5(3) by (simp add: c7 c4 apply_llm_switch_config)
  have prov: "llmProvider (config m8) =
          (if llmProvider (config m) = ''gemini'' \<and> \<not> key_present (geminiApiKey (config m8))
           then ''ollama'' else llmProvider (config m))"
    using c8(1) c8(4) by (simp add: c7)
  have emb: "embeddingProvider (config m8) = embeddingProvider (config m)"
    using c8(2) c5(2) by (simp add: c7 c4 apply_llm_switch_config)
  have hf: "huggingfaceApiKey (config m8) = huggingfaceApiKey (config m)"
    using c8(5) c5(5) by (simp add: c7 c4 apply_llm_switch_config)
  have oa: "openaiApiKey (config m8) = openaiApiKey (config m)"
    using c8(6) c5(6) by (simp add: c7 c4 apply_llm_switch_config)
  have ver: "version (config m8) = version (config m)"
    using c8(7) c5(7) by (simp add: c7 c4 apply_llm_switch_config)
  let ?fallback = "llmProvider (config m) = ''gemini''
        \<and> \<not> key_present (geminiApiKey (config (apply_llm_switch provider options m)))"
  have fb7: "(llmProvider (config ?m7) = ''gemini'' \<and> \<not> key_present (geminiApiKey (config ?m7)))
               = ?fallback"
    by (simp add: c7 key5)
  have ls: "last_save w provider options m = (if ?fallback then Suc (step m5) else step m5)"
    using first by (simp add: last_save_def Let_def)
  have l7: "lastUpdated (config ?m7) = clock w (step m5)"
    by (simp add: c7)
  have stamp: "lastUpdated (config m8) = clock w (last_save w provider options m)"
    using initializeLLM_stamp [OF second] unfolding fb7 ls l7 s7 by simp
  have disk: "file_writable w (last_save w provider options m) \<longrightarrow> saved m8 = Some (config m8)"
  proof (cases ?fallback)
    case True
    then have f7: "llmProvider (config ?m7) = ''gemini'' \<and> \<not> key_present (geminiApiKey (config ?m7))"
      using fb7 by simp
    show ?thesis
    proof
      assume "file_writable w (last_save w provider options m)"
      with True have "file_writable w (Suc (step m5))" by (simp add: ls)
      then have "file_writable w (step ?m7)" by (simp only: s7)
      with f7 show "saved m8 = Some (config m8)" by (rule initializeLLM_file(1) [OF second])
    qed
  next
    case False
    then have f7: "\<not> (llmProvider (config ?m7) = ''gemini'' \<and> \<not> key_present (geminiApiKey (config ?m7)))"
      using fb7 by simp
    show ?thesis
    proof
      assume "file_writable w (last_save w provider options m)"
      moreover from False have "last_save w provider options m = step m5"
        unfolding ls by (rule if_not_P)
      ultimately have "file_writable w (step m5)" by simp
      then have "file_writable w (step (rollback_llm (llmProvider (config m)) m5))"
        by (simp add: rollback_llm_def)
      then have "saved ?m7 = Some (config ?m7)" by (rule saveConfig_saved)
      with f7 show "saved m8 = Some (config m8)" by (rule initializeLLM_file(2) [OF second])
    qed
  qed
  have emb_part: "fst (setEmbeddingProvider w p key m) \<noteq> None \<longrightarrow>
          embeddingProvider (config (snd (setEmbeddingProvider w p key m))) = p
          \<and> lastUpdated (config (snd (setEmbeddingProvider w p key m))) = clock w (step m)
          \<and> (file_writable w (step m) \<longrightarrow>
               saved (snd (setEmbeddingProvider w p key m)) =
                 Some (config (snd (setEmbeddingProvider w p key m))))"
    by (simp add: setEmbeddingProvider_no_rollback setEmbeddingProvider_stamp)
  from thrown original key mdl prov emb hf oa ver stamp disk emb_part show ?thesis
    by (simp add: res first second)
qed

theorem setLLMProvider_rolls_back_provider_only_witness:
  "fst (initializeLLM gemini_down (saveConfig gemini_down
          (apply_llm_switch ''gemini'' \<lparr>apiKey = Some ''bad-key'', model = None\<rparr> manager0))) \<noteq> None
   \<and> fst (setLLMProvider gemini_down ''gemini'' \<lparr>apiKey = Some ''bad-key'', model = None\<rparr> manager0)
       = Some (''Gemini API key validation failed: Gemini API error: ''
               @ ''API key not valid. Please pass a valid API key.'')
   \<and> llmProvider (config (snd (setLLMProvider gemini_down ''gemini''
          \<lparr>apiKey = Some ''bad-key'', model = None\<rparr> manager0))) = ''ollama''
   \<and> geminiApiKey (config (snd (setLLMProvider gemini_down ''gemini''
          \<lparr>apiKey = Some ''bad-key'', model = None\<rparr> manager0))) = Some ''bad-key''
   \<and> lastUpdated (config (snd (setLLMProvider gemini_down ''gemini''
          \<lparr>apiKey = Some ''bad-key'', model = None\<rparr> manager0))) = ''2024-06-01T12:00:00.000Z''
   \<and> saved (snd (setLLMProvider gemini_down ''gemini''
          \<lparr>apiKey = Some ''bad-key'', model = None\<rparr> manager0))
       = Some (config (snd (setLLMProvider gemini_down ''gemini''
          \<lparr>apiKey = Some ''bad-key'', model = None\<rparr> manager0)))
   \<and> fst (setEmbeddingProvider gemini_down ''cohere'' None manager0) \<noteq> None
   \<and> embeddingProvider (config (snd (setEmbeddingProvider gemini_down ''cohere'' None manager0)))
       = ''cohere''
   \<and> saved (snd (setEmbeddingProvider gemini_down ''cohere'' None manager0))
       = Some (config (snd (setEmbeddingProvider gemini_down ''cohere'' None manager0)))"
proof -
  let ?o = "\<lparr>apiKey = Some ''bad-key'', model = None\<rparr>"
  have h: "fst (initializeLLM gemini_down (saveConfig gemini_down
          (apply_llm_switch ''gemini'' ?o manager0))) \<noteq> None"
    by (simp add: manager_eval)
  have first: "fst (initializeLLM gemini_down (saveConfig gemini_down
          (apply_llm_switch ''gemini'' ?o manager0)))
       = Some (''Gemini API key validation failed: Gemini API error: ''
               @ ''API key not valid. Please pass a valid API key.'')"
    by (simp add: manager_eval)
  have again: "fst (initializeLLM gemini_down (saveConfig gemini_down
          (rollback_llm (llmProvider (config manager0))
             (snd (initializeLLM gemini_down (saveConfig gemini_down
                (apply_llm_switch ''gemini'' ?o manager0))))))) = None"
    by (simp add: manager_eval)
  have e: "fst (setEmbeddingProvider gemini_down ''cohere'' None manager0) \<noteq> None"
    by (simp add: manager_eval)
  have m: "llmProvider (config manager0) = ''ollama''" "geminiApiKey (config manager0) = None"
    by (simp_all add: manager0_def default_config_def)
  have env: "clock gemini_down t = ''2024-06-01T12:00:00.000Z''" "file_writable gemini_down t" for t
    by (simp_all add: gemini_down_def)
  from setLLMProvider_rolls_back_provider_only [OF h, of "''cohere''" None] h first again e m env
  show ?thesis by (simp add: key_present_def)
qed

text \<open>
  Claim C2 as stated fails: a switch to the hosted provider with a key that the API
  rejects fails and is rolled back, and the rejected key is then part of the configuration,
  in memory and on disk, where no key was before.
\<close>

theorem setLLMProvider_rollback_counterexample:
  "fst (initializeLLM gemini_down (saveConfig gemini_down
          (apply_llm_switch ''gemini'' \<lparr>apiKey = Some ''bad-key'', model = None\<rparr> manager0)))
     = Some (''Gemini API key validation failed: Gemini API error: ''
             @ ''API key not valid. Please pass a valid API key.'')
   \<and> fst (setLLMProvider gemini_down ''gemini'' \<lparr>apiKey = Some ''bad-key'', model = None\<rparr> manager0)
     = Some (''Gemini API key validation failed: Gemini API error: ''
             @ ''API key not valid. Please pass a valid API key.'')
   \<and> geminiApiKey (config manager0) = None
   \<and> geminiApiKey (config (snd (setLLMProvider gemini_down ''gemini''
          \<lparr>apiKey = Some ''bad-key'', model = None\<rparr> manager0))) = Some ''bad-key''
   \<and> config (snd (setLLMProvider gemini_down ''gemini''
          \<lparr>apiKey = Some ''bad-key'', model = None\<rparr> manager0)) \<noteq> config manager0
   \<and> saved (snd (setLLMProvider gemini_down ''gemini''
          \<lparr>apiKey = Some ''bad-key'', model = None\<rparr> manager0)) \<noteq> saved manager0"
  by (simp add: manager_eval)


text \<open>
  When the re-initialisation with the previous provider fails as well, it is that second
  error which the caller sees.
\<close>

lemma setLLMProvider_second_error:
  "fst (setLLMProvider (gemini_down\<lparr>ollama_installed := (\<lambda>t. False)\<rparr>) ''gemini''
          \<lparr>apiKey = Some ''bad-key'', model = None\<rparr> manager0)
     = Some ''Ollama not found. Please install Ollama first.''"
  by (simp add: manager_eval)

section \<open>RAG service: commit ingestion\<close>

lemma ingest_file_skips:
  "cleaned_empty env file \<Longrightarrow> ingest_file env pname meta file s = (None, s)"
  by (auto simp: ingest_file_def cleaned_empty_def Let_def js_trim_def)

lemma ingest_file_records:
  assumes "\<not> cleaned_empty env file"
  shows "\<exists>r s'. ingest_file env pname meta file s = (Some r, s') \<and> file_path r = path file"
proof -
  let ?c = "cleanFileContent env (content file) (path file)"
  have ne: "\<not> (?c = [] \<or> length (js_trim ?c) = 0)"
    using assms by (auto simp: cleaned_empty_def js_trim_def)
  obtain out s' where o: "ingestDocument env ?c (fileMetadata env pname meta file (tick s)) s = (out, s')"
    by (cases "ingestDocument env ?c (fileMetadata env pname meta file (tick s)) s") auto
  show ?thesis
    using ne o by (cases out) (auto simp: ingest_file_def Let_def)
qed

text \<open>
  A file that is not skipped gets a success result when \<open>ingestDocument\<close> returns and an
  error result, with the message of the error, when it throws.
\<close>

lemma ingest_file_outcome:
  assumes "\<not> cleaned_empty env file"
  shows "fst (ingest_file env pname meta file s) =
           (case fst (ingestDocument env (cleanFileContent env (content file) (path file))
                        (fileMetadata env pname meta file (tick s)) s) of
              Inr result \<Rightarrow>
                Some (SuccessResult (path file) (ingested_id result)
                        (length (cleanFileContent env (content file) (path file))))
            | Inl message \<Rightarrow> Some (ErrorResult (path file) message))"
proof -
  let ?c = "cleanFileContent env (content file) (path file)"
  have ne: "\<not> (?c = [] \<or> length (js_trim ?c) = 0)"
    using assms by (auto simp: cleaned_empty_def js_trim_def)
  obtain out s' where o: "ingestDocument env ?c (fileMetadata env pname meta file (tick s)) s = (out, s')"
    by (cases "ingestDocument env ?c (fileMetadata env pname meta file (tick s)) s") auto
  show ?thesis
    using ne o by (cases out) (auto simp: ingest_file_def Let_def)
qed

text \<open>
  Whether \<open>ingestDocument\<close> returns or throws, and with what, depends on the step at which
  it is called, not on the rows stored.
\<close>

lemma ingestDocument_outcome_step:
  "tick st = tick st' \<Longrightarrow>
     fst (ingestDocument env text meta st) = fst (ingestDocument env text meta st')"
  by (simp add: ingestDocument_def Let_def split: sum.splits option.splits)

lemma ingestDocument_tick: "tick (snd (ingestDocument env text meta s)) = Suc (tick s)"
  by (simp add: ingestDocument_def Let_def split: sum.splits option.splits)

lemma ingest_file_tick:
  "\<not> cleaned_empty env file \<Longrightarrow> tick (snd (ingest_file env pname meta file s)) = Suc (tick s)"
proof -
  assume ne: "\<not> cleaned_empty env file"
  let ?c = "cleanFileContent env (content file) (path file)"
  let ?r = "ingestDocument env ?c (fileMetadata env pname meta file (tick s)) s"
  have n: "\<not> (?c = [] \<or> length (js_trim ?c) = 0)"
    using ne by (auto simp: cleaned_empty_def js_trim_def)
  have "snd (ingest_file env pname meta file s) = snd ?r"
    using n by (cases ?r) (auto simp: ingest_file_def Let_def split: sum.splits)
  then show ?thesis by (simp add: ingestDocument_tick)
qed

lemma ingest_files_results:
  fixes env pname meta
  defines "R \<equiv> \<lambda>f st.
     (case fst (ingestDocument env (cleanFileContent env (content f) (path f))
                  (fileMetadata env pname meta f (tick st)) st) of
        Inr result \<Rightarrow> SuccessResult (path f) (ingested_id result)
                        (length (cleanFileContent env (content f) (path f)))
      | Inl message \<Rightarrow> ErrorResult (path f) message)"
  assumes "ingest_files env pname meta fs acc s = (rs, s')"
  shows "rs = acc @ map (\<lambda>(i, f). R f (s\<lparr>tick := tick s + i\<rparr>))
                     (enumerate 0 (filter (\<lambda>f. \<not> cleaned_empty env f) fs))"
  using assms(2)
proof (induction fs arbitrary: acc s)
  case Nil
  then show ?case by simp
next
  case (Cons f fs)
  have cong: "R g st = R g st'" if "tick st = tick st'" for g st st'
    using that ingestDocument_outcome_step [OF that] by (simp add: R_def)
  show ?case
  proof (cases "cleaned_empty env f")
    case True
    then have "ingest_file env pname meta f s = (None, s)" by (rule ingest_file_skips)
    with Cons.prems have "ingest_files env pname meta fs acc s = (rs, s')" by simp
    then show ?thesis using Cons.IH True by simp
  next
    case False
    obtain r s1 where step: "ingest_file env pname meta f s = (r, s1)"
      by (cases "ingest_file env pname meta f s") auto
    have r: "r = Some (R f s)"
      using ingest_file_outcome [OF False, of pname meta s] step
      by (simp add: R_def split: sum.splits)
    have t1: "tick s1 = Suc (tick s)"
      using ingest_file_tick [OF False, of pname meta s] step by simp
    from Cons.prems step r have "ingest_files env pname meta fs (acc @ [R f s]) s1 = (rs, s')"
      by simp
    then have ih: "rs = (acc @ [R f s]) @ map (\<lambda>(i, g). R g (s1\<lparr>tick := tick s1 + i\<rparr>))
                     (enumerate 0 (filter (\<lambda>f. \<not> cleaned_empty env f) fs))"
      by (rule Cons.IH)
    have shift: "map (\<lambda>(i, g). R g (s1\<lparr>tick := tick s1 + i\<rparr>)) xs
                 = map (\<lambda>(i, g). R g (s\<lparr>tick := tick s + i\<rparr>)) (map (apfst Suc) xs)" for xs
      by (induction xs) (auto simp: t1 intro!: cong)
    have here: "R f (s\<lparr>tick := tick s + 0\<rparr>) = R f s"
      by (rule cong) simp
    have k: "filter (\<lambda>f. \<not> cleaned_empty env f) (f # fs)
               = f # filter (\<lambda>f. \<not> cleaned_empty env f) fs"
      using False by simp
    have e: "enumerate 0 (f # xs) = (0, f) # map (apfst Suc) (enumerate 0 xs)" for xs
      by (simp add: enumerate_Suc_eq)
    show ?thesis
      unfolding k e ih shift by (simp add: here)
  qed
qed

lemma ingest_files_paths:
  "ingest_files env pname meta fs acc s = (rs, s') \<Longrightarrow>
     map file_path rs = map file_path acc @ map path (filter (\<lambda>f. \<not> cleaned_empty env f) fs)"
proof (induction fs arbitrary: acc s)
  case Nil
  then show ?case by simp
next
  case (Cons f fs)
  show ?case
  proof (cases "cleaned_empty env f")
    case True
    then have "ingest_file env pname meta f s = (None, s)" by (rule ingest_file_skips)
    with Cons.prems have "ingest_files env pname meta fs acc s = (rs, s')" by simp
    then show ?thesis using Cons.IH True by simp
  next
    case False
    then obtain r s1 where r: "ingest_file env pname meta f s = (Some r, s1)" "file_path r = path f"
      using ingest_file_records by blast
    with Cons.prems have "ingest_files env pname meta fs (acc @ [r]) s1 = (rs, s')" by simp
    then have "map file_path rs = map file_path (acc @ [r]) @ map path (filter (\<lambda>f. \<not> cleaned_empty env f) fs)"
      by (rule Cons.IH)
    then show ?thesis using False r(2) by simp
  qed
qed

lemma status_success_or_error:
  "(result_status r = ''error'') = (result_status r \<noteq> ''success'')"
  by (cases r) simp_all

lemma count_success_error:
  "length (filter (\<lambda>r. result_status r = ''success'') rs)
     + length (filter (\<lambda>r. result_status r = ''error'') rs) = length rs"
  by (simp add: status_success_or_error sum_length_filter_compl)

text \<open>
  Claim C3.  \<open>ingestCommit\<close> handles each file on its own.  The results list holds, in
  order, one entry for every file whose cleaned content is not empty and no entry for a
  file whose cleaned content is empty.  The entry of a file is a success result, with the
  identifier of the document and the length of the cleaned content, when \<open>ingestDocument\<close>
  returns for it, and an error result with the message of the error when \<open>ingestDocument\<close>
  throws; either way the files after it are handled, each at the next step.  The summary
  reports the number of files of the payload, the number of success results and the
  number of error results; these two and the number of skipped files add up to the
  number of files.
\<close>

theorem ingestCommit_partial_failure:
  "total_files (fst (ingestCommit env commitData s)) = length (files commitData)
   \<and> successful (fst (ingestCommit env commitData s)) =
       length (filter (\<lambda>r. result_status r = ''success'') (results (fst (ingestCommit env commitData s))))
   \<and> failed (fst (ingestCommit env commitData s)) =
       length (filter (\<lambda>r. result_status r = ''error'') (results (fst (ingestCommit env commitData s))))
   \<and> map file_path (results (fst (ingestCommit env commitData s))) =
       map path (filter (\<lambda>f. \<not> cleaned_empty env f) (files commitData))
   \<and> successful (fst (ingestCommit env commitData s)) + failed (fst (ingestCommit env commitData s))
       + length (filter (cleaned_empty env) (files commitData))
       = total_files (fst (ingestCommit env commitData s))
   \<and> results (fst (ingestCommit env commitData s)) =
       map (\<lambda>(i, f).
              case fst (ingestDocument env (cleanFileContent env (content f) (path f))
                          (fileMetadata env (projectName commitData) (metadata commitData) f
                             (tick s + i))
                          (s\<lparr>tick := tick s + i\<rparr>)) of
                Inr result \<Rightarrow>
                  SuccessResult (path f) (ingested_id result)
                    (length (cleanFileContent env (content f) (path f)))
              | Inl message \<Rightarrow> ErrorResult (path f) message)
           (enumerate 0 (filter (\<lambda>f. \<not> cleaned_empty env f) (files commitData)))"
proof -
  obtain rs s' where run:
    "ingest_files env (projectName commitData) (metadata commitData) (files commitData) [] s = (rs, s')"
    by (cases "ingest_files env (projectName commitData) (metadata commitData) (files commitData) [] s") auto
  have sm: "fst (ingestCommit env commitData s) =
      \<lparr>project_name = projectName commitData, commit_metadata = metadata commitData,
       total_files = length (files commitData),
       successful = length (filter (\<lambda>r. result_status r = ''success'') rs),
       failed = length (filter (\<lambda>r. result_status r = ''error'') rs),
       results = rs\<rparr>"
    using run by (simp add: ingestCommit_def)
  have paths: "map file_path rs = map path (filter (\<lambda>f. \<not> cleaned_empty env f) (files commitData))"
    using ingest_files_paths [OF run] by simp
  then have "length rs = length (filter (\<lambda>f. \<not> cleaned_empty env f) (files commitData))"
    by (metis length_map)
  then have "length rs + length (filter (cleaned_empty env) (files commitData)) = length (files commitData)"
    using sum_length_filter_compl [of "cleaned_empty env" "files commitData"] by simp
  then have total: "length (filter (\<lambda>r. result_status r = ''success'') rs)
     + length (filter (\<lambda>r. result_status r = ''error'') rs)
     + length (filter (cleaned_empty env) (files commitData)) = length (files commitData)"
    by (simp add: count_success_error)
  have outcomes: "rs =
       map (\<lambda>(i, f).
              case fst (ingestDocument env (cleanFileContent env (content f) (path f))
                          (fileMetadata env (projectName commitData) (metadata commitData) f
                             (tick s + i))
                          (s\<lparr>tick := tick s + i\<rparr>)) of
                Inr result \<Rightarrow>
                  SuccessResult (path f) (ingested_id result)
                    (length (cleanFileContent env (content f) (path f)))
              | Inl message \<Rightarrow> ErrorResult (path f) message)
           (enumerate 0 (filter (\<lambda>f. \<not> cleaned_empty env f) (files commitData)))"
    using ingest_files_results [OF run] by simp
  show ?thesis unfolding sm using paths total outcomes by simp
qed


theorem ingestCommit_partial_failure_witness:
  "fst (ingestCommit flaky_env sample_commit empty_store) =
     \<lparr>project_name = JStr ''demo'',
      commit_metadata = [(''author'', JStr ''Ann''), (''commit-message'', JStr ''init''),
                         (''date'', JStr ''2024-06-01'')],
      total_files = 4, successful = 2, failed = 1,
      results = [SuccessResult ''a.js'' ''doc-'' 9,
                 ErrorResult ''c.js'' ''connect ECONNREFUSED'',
                 SuccessResult ''d.js'' ''doc-xx'' 9]\<rparr>
   \<and> length (filter (cleaned_empty flaky_env) (files sample_commit)) = 1
   \<and> map path (filter (\<lambda>f. \<not> cleaned_empty flaky_env f) (files sample_commit))
       = [''a.js'', ''c.js'', ''d.js'']"
proof -
  have run: "fst (ingestCommit flaky_env sample_commit empty_store) =
     \<lparr>project_name = JStr ''demo'',
      commit_metadata = [(''author'', JStr ''Ann''), (''commit-message'', JStr ''init''),
                         (''date'', JStr ''2024-06-01'')],
      total_files = 4, successful = 2, failed = 1,
      results = [SuccessResult ''a.js'' ''doc-'' 9,
                 ErrorResult ''c.js'' ''connect ECONNREFUSED'',
                 SuccessResult ''d.js'' ''doc-xx'' 9]\<rparr>"
    by code_simp
  note claim = ingestCommit_partial_failure [of flaky_env sample_commit empty_store]
  from claim have skipped: "length (filter (cleaned_empty flaky_env) (files sample_commit)) = 1"
    by (simp add: run)
  from claim have kept: "map path (filter (\<lambda>f. \<not> cleaned_empty flaky_env f) (files sample_commit))
       = [''a.js'', ''c.js'', ''d.js'']"
    by (simp add: run)
  from run skipped kept show ?thesis by simp
qed

lemma js_trim_Nil_iff: "js_trim s = [] \<longleftrightarrow> (\<forall>c\<in>set s. js_whitespace c)"
proof -
  have "js_trim s = [] \<longleftrightarrow> (\<forall>c\<in>set (dropWhile js_whitespace s). js_whitespace c)"
    by (simp add: js_trim_def)
  also have "\<dots> \<longleftrightarrow> dropWhile js_whitespace s = []"
  proof (cases "dropWhile js_whitespace s")
    case Nil
    then show ?thesis by (simp del: dropWhile_eq_Nil_conv)
  next
    case (Cons x xs)
    then have "\<not> js_whitespace x" by (metis hd_dropWhile list.sel(1) list.distinct(1))
    with Cons show ?thesis by (auto simp del: dropWhile_eq_Nil_conv)
  qed
  also have "\<dots> \<longleftrightarrow> (\<forall>c\<in>set s. js_whitespace c)"
    by simp
  finally show ?thesis .
qed

lemma js_trim_starts_black:
  assumes "js_trim s \<noteq> []"
  shows "\<exists>x xs. js_trim s = x # xs \<and> \<not> js_whitespace x"
proof -
  from assms have "\<not> (\<forall>c\<in>set s. js_whitespace c)" by (simp add: js_trim_Nil_iff)
  then have "dropWhile js_whitespace s \<noteq> []" by simp
  then obtain x xs where d: "dropWhile js_whitespace s = x # xs"
    by (cases "dropWhile js_whitespace s") (auto simp del: dropWhile_eq_Nil_conv)
  then have x: "\<not> js_whitespace x" by (metis hd_dropWhile list.sel(1) list.distinct(1))
  then have "dropWhile js_whitespace (rev xs @ [x]) = dropWhile js_whitespace (rev xs) @ [x]"
    by (simp add: dropWhile_append3)
  then have "js_trim s = x # rev (dropWhile js_whitespace (rev xs))"
    unfolding js_trim_def d by simp
  with x show ?thesis by blast
qed

lemma js_trim_Nil: "js_trim [] = []"
  by (simp add: js_trim_def)

lemma LF_whitespace: "js_whitespace LF"
  by (simp add: js_whitespace_def LF_def)

text \<open>
  Outside the JSON branch the cleaned content passes the test for an empty file exactly
  when it is the empty string, which is when the content is missing, not a string, or
  nothing but white space.
\<close>

lemma blank_collapse:
  "js_trim (collapse_blank_lines (js_trim s)) = [] \<longleftrightarrow> collapse_blank_lines (js_trim s) = []"
proof (cases "js_trim s = []")
  case True
  then show ?thesis by (simp add: js_trim_Nil)
next
  case False
  then obtain x xs where t: "js_trim s = x # xs" "\<not> js_whitespace x"
    using js_trim_starts_black by blast
  then have "x \<noteq> LF" using LF_whitespace by auto
  then have c: "collapse_blank_lines (js_trim s) = x # collapse_blank_lines xs"
    by (simp add: t(1))
  have "js_trim (x # collapse_blank_lines xs) \<noteq> []"
    using t(2) by (simp add: js_trim_Nil_iff)
  then show ?thesis by (simp add: c)
qed

lemma cleaned_empty_iff:
  assumes "\<And>x y. json_pretty env x = Some y \<Longrightarrow> js_trim y \<noteq> []"
  shows "cleaned_empty env file \<longleftrightarrow> cleanFileContent env (content file) (path file) = []"
proof (cases "content file")
  case (JStr c)
  let ?cl = "collapse_blank_lines (js_trim (tabs_to_spaces (cr_to_lf (crlf_to_lf c))))"
  have b: "js_trim ?cl = [] \<longleftrightarrow> ?cl = []" by (rule blank_collapse)
  show ?thesis
  proof (cases "c = []")
    case True
    with JStr show ?thesis by (simp add: cleaned_empty_def cleanFileContent_def js_trim_Nil)
  next
    case False
    show ?thesis
    proof (cases "js_includes [''.json''] (toLowerCase (path_extname (path file)))")
      case True
      show ?thesis
      proof (cases "json_pretty env ?cl")
        case None
        with JStr False True b show ?thesis
          by (simp add: cleaned_empty_def cleanFileContent_def Let_def)
      next
        case (Some y)
        then have "js_trim y \<noteq> []" by (rule assms)
        moreover from this have "y \<noteq> []" by (auto simp: js_trim_Nil)
        ultimately show ?thesis using JStr False True Some
          by (simp add: cleaned_empty_def cleanFileContent_def Let_def)
      qed
    next
      case nj: False
      with JStr False b show ?thesis
        by (simp add: cleaned_empty_def cleanFileContent_def Let_def)
    qed
  qed
qed (simp_all add: cleaned_empty_def cleanFileContent_def js_trim_Nil)

section \<open>The document store never loses a row\<close>

lemma keeps_ids_refl: "keeps_ids s s"
  by (simp add: keeps_ids_def)

lemma keeps_ids_trans: "keeps_ids s s1 \<Longrightarrow> keeps_ids s1 s2 \<Longrightarrow> keeps_ids s s2"
  by (auto simp: keeps_ids_def)

lemma upsert_ids: "doc_id ` set (upsert d rows) = insert (doc_id d) (doc_id ` set rows)"
  by (auto simp: upsert_def image_iff)

lemma upsert_length: "length rows \<le> length (upsert d rows)"
  by (simp add: upsert_def)

lemma ingestDocument_keeps_ids: "keeps_ids s (snd (ingestDocument env text meta s))"
  by (auto simp: ingestDocument_def Let_def keeps_ids_def upsert_ids upsert_length
      split: sum.splits option.splits)

lemma ingest_file_keeps_ids: "keeps_ids s (snd (ingest_file env pname meta file s))"
proof -
  let ?c = "cleanFileContent env (content file) (path file)"
  let ?r = "ingestDocument env ?c (fileMetadata env pname meta file (tick s)) s"
  have "snd (ingest_file env pname meta file s) = s \<or> snd (ingest_file env pname meta file s) = snd ?r"
    by (cases ?r) (auto simp: ingest_file_def Let_def split: sum.splits)
  then show ?thesis
    using ingestDocument_keeps_ids [of s env ?c "fileMetadata env pname meta file (tick s)"]
    by (auto simp: keeps_ids_refl)
qed

lemma ingest_files_keeps_ids: "keeps_ids s (snd (ingest_files env pname meta fs acc s))"
proof (induction fs arbitrary: acc s)
  case Nil
  then show ?case by (simp add: keeps_ids_refl)
next
  case (Cons f fs)
  obtain r s1 where step: "ingest_file env pname meta f s = (r, s1)"
    by (cases "ingest_file env pname meta f s") auto
  have k1: "keeps_ids s s1"
    using ingest_file_keeps_ids [of s env pname meta f] step by simp
  have "keeps_ids s1 (snd (ingest_files env pname meta (f # fs) acc s))"
    using step Cons.IH by (cases r) simp_all
  with k1 show ?case by (rule keeps_ids_trans)
qed

lemma ingestCommit_keeps_ids: "keeps_ids s (snd (ingestCommit env commitData s))"
proof -
  have "snd (ingestCommit env commitData s) =
        snd (ingest_files env (projectName commitData) (metadata commitData) (files commitData) [] s)"
    by (simp add: ingestCommit_def split: prod.splits)
  then show ?thesis by (simp add: ingest_files_keeps_ids)
qed

lemma bulk_loop_keeps_ids: "keeps_ids s (snd (bulk_loop env i n acc s))"
proof (induction n arbitrary: i acc s)
  case 0
  then show ?case by (simp add: keeps_ids_refl)
next
  case (Suc n)
  obtain r s1 where step: "ingestDocument env (demo_text i) (demo_metadata env i (tick s)) s = (r, s1)"
    by (cases "ingestDocument env (demo_text i) (demo_metadata env i (tick s)) s") auto
  have k1: "keeps_ids s s1"
    using ingestDocument_keeps_ids [of s env "demo_text i" "demo_metadata env i (tick s)"] step
    by simp
  have "keeps_ids s1 (snd (bulk_loop env i (Suc n) acc s))"
    using step Suc.IH by (cases r) (simp_all add: keeps_ids_refl)
  with k1 show ?case by (rule keeps_ids_trans)
qed

lemma bulkIngestDemo_keeps_ids: "keeps_ids s (snd (bulkIngestDemo env n s))"
proof -
  have "snd (bulkIngestDemo env n s) = snd (bulk_loop env 0 n [] s)"
    by (simp add: bulkIngestDemo_def split: prod.splits sum.splits)
  then show ?thesis by (simp add: bulk_loop_keeps_ids)
qed

lemma searchAndGenerate_db: "db (snd (searchAndGenerate env query k pname s)) = db s"
  by (simp add: searchAndGenerate_def Let_def split: sum.splits)

lemma searchAndGenerate_tick: "tick s \<le> tick (snd (searchAndGenerate env query k pname s))"
  by (simp add: searchAndGenerate_def Let_def split: sum.splits)

lemma run_op_keeps_ids: "keeps_ids s (run_op env op s)"
proof (cases op)
  case (SearchAndGenerate query k pname)
  then show ?thesis by (simp add: keeps_ids_def searchAndGenerate_db)
qed (simp_all add: ingestDocument_keeps_ids ingestCommit_keeps_ids bulkIngestDemo_keeps_ids
      keeps_ids_refl)

lemma run_ops_keeps_ids: "keeps_ids s (run_ops env ops s)"
proof (induction ops arbitrary: s)
  case Nil
  then show ?case by (simp add: keeps_ids_refl)
next
  case (Cons op ops)
  have "keeps_ids s (run_op env op s)" by (rule run_op_keeps_ids)
  moreover have "keeps_ids (run_op env op s) (run_ops env (op # ops) s)"
    using Cons.IH by simp
  ultimately show ?case by (rule keeps_ids_trans)
qed


lemma keeps_rows_refl: "keeps_rows s s"
  by (simp add: keeps_rows_def)

lemma keeps_rows_trans:
  assumes "keeps_rows s s1" and "keeps_rows s1 s2"
  shows "keeps_rows s s2"
proof -
  have "length (take (length (db s)) (db s1)) = length (db s)"
    using assms(1) by (simp only: keeps_rows_def)
  then have l: "length (db s) \<le> length (db s1)"
    by simp
  have "take (length (db s)) (db s2) = take (length (db s)) (take (length (db s1)) (db s2))"
    using l by (simp add: min_def)
  also have "\<dots> = take (length (db s)) (db s1)"
    using assms(2) by (simp only: keeps_rows_def)
  also have "\<dots> = db s"
    using assms(1) by (simp only: keeps_rows_def)
  finally show ?thesis by (simp only: keeps_rows_def)
qed

lemma advances_refl: "advances env s s"
  by (simp add: advances_def keeps_rows_refl)

lemma advances_trans:
  assumes a: "advances env s s1" and b: "advances env s1 s2"
  shows "advances env s s2"
proof -
  have t: "tick s \<le> tick s2"
    using a b by (simp add: advances_def)
  have "fresh_ids env s2 \<and> keeps_rows s s2" if f: "fresh_ids env s"
  proof -
    from a f have f1: "fresh_ids env s1" and k1: "keeps_rows s s1"
      by (simp_all add: advances_def)
    from b f1 have f2: "fresh_ids env s2" and k2: "keeps_rows s1 s2"
      by (simp_all add: advances_def)
    from k1 k2 have "keeps_rows s s2" by (rule keeps_rows_trans)
    with f2 show ?thesis by simp
  qed
  with t show ?thesis by (simp add: advances_def)
qed

lemma fresh_ids_later:
  assumes "fresh_ids env s" and "db s' = db s" and "tick s \<le> tick s'"
  shows "fresh_ids env s'"
proof -
  have "{tick s'..} \<subseteq> {tick s..}" using assms(3) by auto
  then have "inj_on (new_id env) {tick s'..}"
    using assms(1) unfolding fresh_ids_def by (meson inj_on_subset)
  moreover have "new_id env t \<notin> doc_id ` set (db s')" if "tick s' \<le> t" for t
  proof -
    from that assms(3) have "tick s \<le> t" by simp
    with assms(1) have "new_id env t \<notin> doc_id ` set (db s)" by (simp add: fresh_ids_def)
    then show ?thesis by (simp add: assms(2))
  qed
  ultimately show ?thesis by (simp add: fresh_ids_def)
qed

lemma fresh_ids_insert:
  assumes f: "fresh_ids env s"
    and d: "db s' = db s @ [row]" "doc_id row = new_id env (tick s)" "tick s' = Suc (tick s)"
  shows "fresh_ids env s'"
proof -
  have inj: "inj_on (new_id env) {tick s..}" using f by (simp add: fresh_ids_def)
  have "{tick s'..} \<subseteq> {tick s..}" using d(3) by auto
  then have i': "inj_on (new_id env) {tick s'..}" using inj by (meson inj_on_subset)
  have "new_id env t \<notin> doc_id ` set (db s')" if t: "tick s' \<le> t" for t
  proof -
    have "tick s \<le> t" "t \<noteq> tick s" using t d(3) by auto
    then have "new_id env t \<noteq> new_id env (tick s)"
      using inj by (auto simp: inj_on_def)
    moreover have "new_id env t \<notin> doc_id ` set (db s)"
      using f \<open>tick s \<le> t\<close> by (simp add: fresh_ids_def)
    ultimately show ?thesis by (auto simp: d(1) d(2))
  qed
  with i' show ?thesis by (simp add: fresh_ids_def)
qed

lemma ingestDocument_advances: "advances env s (snd (ingestDocument env text meta s))"
proof -
  let ?s' = "snd (ingestDocument env text meta s)"
  let ?row = "\<lparr>doc_id = new_id env (tick s), doc_text = text, doc_metadata = meta,
               doc_embedding = Some (projr (embedText env (tick s) (text @ [LF] @ json_stringify env meta)))\<rparr>"
  have t: "tick ?s' = Suc (tick s)"
    by (simp add: ingestDocument_def Let_def split: sum.splits option.splits)
  have cases: "db ?s' = db s \<or> db ?s' = upsert ?row (db s)"
    by (auto simp: ingestDocument_def Let_def split: sum.splits option.splits)
  have "fresh_ids env ?s' \<and> keeps_rows s ?s'" if f: "fresh_ids env s"
  proof -
    have "new_id env (tick s) \<notin> doc_id ` set (db s)"
      using f by (simp add: fresh_ids_def)
    then have up: "upsert ?row (db s) = db s @ [?row]"
      by (simp add: upsert_def)
    from cases show ?thesis
    proof
      assume same: "db ?s' = db s"
      have le: "tick s \<le> tick ?s'" by (simp only: t)
      from f same le have "fresh_ids env ?s'" by (rule fresh_ids_later)
      moreover have "keeps_rows s ?s'" unfolding keeps_rows_def same by simp
      ultimately show ?thesis by simp
    next
      assume "db ?s' = upsert ?row (db s)"
      then have app: "db ?s' = db s @ [?row]" using up by simp
      have rid: "doc_id ?row = new_id env (tick s)" by simp
      from f app rid t have "fresh_ids env ?s'" by (rule fresh_ids_insert)
      moreover have "keeps_rows s ?s'" unfolding keeps_rows_def app by simp
      ultimately show ?thesis by simp
    qed
  qed
  then show ?thesis using t by (simp add: advances_def)
qed

lemma ingest_file_advances: "advances env s (snd (ingest_file env pname meta file s))"
proof -
  let ?c = "cleanFileContent env (content file) (path file)"
  let ?r = "ingestDocument env ?c (fileMetadata env pname meta file (tick s)) s"
  have "snd (ingest_file env pname meta file s) = s \<or> snd (ingest_file env pname meta file s) = snd ?r"
    by (cases ?r) (auto simp: ingest_file_def Let_def split: sum.splits)
  then show ?thesis
    using ingestDocument_advances [of env s ?c "fileMetadata env pname meta file (tick s)"]
    by (auto simp: advances_refl)
qed

lemma ingest_files_advances: "advances env s (snd (ingest_files env pname meta fs acc s))"
proof (induction fs arbitrary: acc s)
  case Nil
  then show ?case by (simp add: advances_refl)
next
  case (Cons f fs)
  obtain r s1 where step: "ingest_file env pname meta f s = (r, s1)"
    by (cases "ingest_file env pname meta f s") auto
  have k1: "advances env s s1"
    using ingest_file_advances [of env s pname meta f] step by simp
  have "advances env s1 (snd (ingest_files env pname meta (f # fs) acc s))"
    using step Cons.IH by (cases r) simp_all
  with k1 show ?case by (rule advances_trans)
qed

lemma ingestCommit_advances: "advances env s (snd (ingestCommit env commitData s))"
proof -
  have "snd (ingestCommit env commitData s) =
        snd (ingest_files env (projectName commitData) (metadata commitData) (files commitData) [] s)"
    by (simp add: ingestCommit_def split: prod.splits)
  then show ?thesis by (simp add: ingest_files_advances)
qed

lemma bulk_loop_advances: "advances env s (snd (bulk_loop env i n acc s))"
proof (induction n arbitrary: i acc s)
  case 0
  then show ?case by (simp add: advances_refl)
next
  case (Suc n)
  obtain r s1 where step: "ingestDocument env (demo_text i) (demo_metadata env i (tick s)) s = (r, s1)"
    by (cases "ingestDocument env (demo_text i) (demo_metadata env i (tick s)) s") auto
  have k1: "advances env s s1"
    using ingestDocument_advances [of env s "demo_text i" "demo_metadata env i (tick s)"] step
    by simp
  have "advances env s1 (snd (bulk_loop env i (Suc n) acc s))"
    using step Suc.IH by (cases r) (simp_all add: advances_refl)
  with k1 show ?case by (rule advances_trans)
qed

lemma bulkIngestDemo_advances: "advances env s (snd (bulkIngestDemo env n s))"
proof -
  have "snd (bulkIngestDemo env n s) = snd (bulk_loop env 0 n [] s)"
    by (simp add: bulkIngestDemo_def split: prod.splits sum.splits)
  then show ?thesis by (simp add: bulk_loop_advances)
qed

lemma searchAndGenerate_advances: "advances env s (snd (searchAndGenerate env query k pname s))"
  unfolding advances_def
  using fresh_ids_later [of env s "snd (searchAndGenerate env query k pname s)"]
  by (simp add: searchAndGenerate_db searchAndGenerate_tick keeps_rows_def)

lemma run_op_advances: "advances env s (run_op env op s)"
  by (cases op)
     (simp_all add: ingestDocument_advances ingestCommit_advances bulkIngestDemo_advances
        searchAndGenerate_advances advances_refl)

lemma run_ops_advances: "advances env s (run_ops env ops s)"
proof (induction ops arbitrary: s)
  case Nil
  then show ?case by (simp add: advances_refl)
next
  case (Cons op ops)
  have "advances env s (run_op env op s)" by (rule run_op_advances)
  moreover have "advances env (run_op env op s) (run_ops env (op # ops) s)"
    using Cons.IH by simp
  ultimately show ?case by (rule advances_trans)
qed

text \<open>With new identifiers a successful \<open>ingestDocument\<close> adds one row at the end.\<close>

lemma ingestDocument_appends:
  assumes "fresh_ids env s" and "fst (ingestDocument env text meta s) = Inr r"
  shows "\<exists>v. db (snd (ingestDocument env text meta s)) =
           db s @ [\<lparr>doc_id = ingested_id r, doc_text = text, doc_metadata = meta,
                    doc_embedding = Some v\<rparr>]"
proof -
  have "new_id env (tick s) \<notin> doc_id ` set (db s)"
    using assms(1) by (simp add: fresh_ids_def)
  then show ?thesis
    using assms(2)
    by (auto simp: ingestDocument_def Let_def upsert_def split: sum.splits option.splits)
qed

lemma flaky_env_fresh: "fresh_ids flaky_env seed_store"
  by (simp add: fresh_ids_def flaky_env_def seed_store_def inj_on_def)

lemma sample_ops_rows: "length (db (run_ops flaky_env sample_ops seed_store)) = 5"
proof -
  have "db (run_ops flaky_env sample_ops seed_store) =
        db (snd (ingestCommit flaky_env sample_commit (snd (bulkIngestDemo flaky_env 2 seed_store))))"
    by (simp add: sample_ops_def searchAndGenerate_db)
  moreover have "length (db (snd (ingestCommit flaky_env sample_commit
                   (snd (bulkIngestDemo flaky_env 2 seed_store))))) = 5"
    by code_simp
  ultimately show ?thesis by simp
qed

text \<open>
  Claim C10.  No operation of the RAG service deletes a document row.  After any sequence
  of \<open>ingestDocument\<close>, \<open>ingestCommit\<close>, \<open>searchAndGenerate\<close>, \<open>getProjects\<close> and
  \<open>bulkIngestDemo\<close>, every identifier that was in the table is still in it and the table
  is no shorter.  The only write is the insertion of \<open>ingestDocument\<close>, which overwrites
  a row only when the identifier it has drawn is already taken; with identifiers that are
  new each time, every earlier row is still there unchanged and the new rows come after.
\<close>

theorem rows_never_deleted:
  "(\<forall>d\<in>set (db s). \<exists>d'\<in>set (db (run_ops env ops s)). doc_id d' = doc_id d)
   \<and> length (db s) \<le> length (db (run_ops env ops s))
   \<and> (fresh_ids env s \<longrightarrow> take (length (db s)) (db (run_ops env ops s)) = db s)"
proof -
  have "keeps_ids s (run_ops env ops s)" by (rule run_ops_keeps_ids)
  then have "(\<forall>d\<in>set (db s). \<exists>d'\<in>set (db (run_ops env ops s)). doc_id d' = doc_id d)
     \<and> length (db s) \<le> length (db (run_ops env ops s))"
    unfolding keeps_ids_def by (fastforce simp: image_iff subset_iff)
  moreover have "advances env s (run_ops env ops s)" by (rule run_ops_advances)
  then have "fresh_ids env s \<longrightarrow> take (length (db s)) (db (run_ops env ops s)) = db s"
    by (simp add: advances_def keeps_rows_def)
  ultimately show ?thesis by blast
qed


theorem rows_never_deleted_witness:
  "fresh_ids flaky_env seed_store
   \<and> length (db seed_store) = 1
   \<and> length (db (run_ops flaky_env sample_ops seed_store)) = 5
   \<and> take 1 (db (run_ops flaky_env sample_ops seed_store)) = db seed_store"
proof -
  have one: "length (db seed_store) = 1" by (simp add: seed_store_def)
  from rows_never_deleted [of seed_store flaky_env sample_ops] flaky_env_fresh
  have "take (length (db seed_store)) (db (run_ops flaky_env sample_ops seed_store)) = db seed_store"
    by blast
  with one flaky_env_fresh sample_ops_rows show ?thesis by simp
qed

section \<open>Cosine similarity\<close>

lemma cosine_sums_eq:
  "length u = length v \<Longrightarrow>
     cosine_sums u v (d, a, b) =
       (d + sum_list (map (\<lambda>(x, y). x * y) (zip u v)),
        a + sum_list (map (\<lambda>x. x * x) u),
        b + sum_list (map (\<lambda>y. y * y) v))"
proof (induction u v arbitrary: d a b rule: list_induct2)
  case Nil
  then show ?case by simp
next
  case (Cons x xs y ys)
  then show ?case by (simp add: algebra_simps)
qed

text \<open>
  Claim C4.  For vectors \<open>a\<close> and \<open>b\<close>: when either is absent or their lengths differ,
  \<open>cosine a b\<close> is exactly \<open>-1\<close>; otherwise it is the dot product divided by the product
  of the two norms plus \<open>1e-8\<close>.  For \<open>a = b = [1, 0]\<close> the result is within \<open>1e-7\<close> of 1,
  for \<open>a = [1, 0]\<close>, \<open>b = [0, 1]\<close> it is 0, and for vectors of unequal length it is \<open>-1\<close>.
  (Numbers are real numbers here; floating-point rounding is not modelled.)
\<close>

theorem cosine_formula:
  "cosine a b =
     (if a = None \<or> b = None \<or> length (the a) \<noteq> length (the b) then - 1
      else sum_list (map (\<lambda>(x, y). x * y) (zip (the a) (the b)))
             / (sqrt (sum_list (map (\<lambda>x. x * x) (the a)))
                  * sqrt (sum_list (map (\<lambda>y. y * y) (the b))) + 1 / 10 ^ 8))
   \<and> \<bar>cosine (Some [1, 0]) (Some [1, 0]) - 1\<bar> < 1 / 10 ^ 7
   \<and> cosine (Some [1, 0]) (Some [0, 1]) = 0
   \<and> cosine (Some [1, 0]) (Some [1, 0, 0]) = - 1"
proof -
  have general: "cosine a b =
     (if a = None \<or> b = None \<or> length (the a) \<noteq> length (the b) then - 1
      else sum_list (map (\<lambda>(x, y). x * y) (zip (the a) (the b)))
             / (sqrt (sum_list (map (\<lambda>x. x * x) (the a)))
                  * sqrt (sum_list (map (\<lambda>y. y * y) (the b))) + 1 / 10 ^ 8))"
  proof (cases a)
    case None
    then show ?thesis by (simp add: cosine_def)
  next
    case sa: (Some u)
    show ?thesis
    proof (cases b)
      case None
      with sa show ?thesis by (simp add: cosine_def)
    next
      case sb: (Some v)
      show ?thesis
      proof (cases "length u = length v")
        case True
        then show ?thesis using sa sb by (simp add: cosine_def cosine_sums_eq)
      next
        case False
        then show ?thesis using sa sb by (simp add: cosine_def)
      qed
    qed
  qed
  have same: "\<bar>cosine (Some [1, 0]) (Some [1, 0]) - 1\<bar> < 1 / 10 ^ 7"
    by (simp add: cosine_def)
  have orth: "cosine (Some [1, 0]) (Some [0, 1]) = 0"
    by (simp add: cosine_def)
  have uneq: "cosine (Some [1, 0]) (Some [1, 0, 0]) = - 1"
    by (simp add: cosine_def)
  from general same orth uneq show ?thesis by blast
qed

theorem cosine_formula_witness:
  "cosine (Some [0, 1]) (Some [0, 1]) = 1 / (1 + 1 / 10 ^ 8) \<and> cosine None (Some [0, 1]) = - 1"
  using cosine_formula [of "Some [0, 1]" "Some [0, 1]"] cosine_formula [of None "Some [0, 1]"]
  by simp

section \<open>Search ordering\<close>

lemma sort_by_score_descending:
  "sorted_wrt (\<lambda>a b. score b \<le> score a) (sort_by_score hits)"
proof -
  have "sorted (map (\<lambda>h. - score h) (sort_key (\<lambda>h. - score h) hits))"
    by (rule sorted_sort_key)
  then show ?thesis by (simp add: sort_by_score_def sorted_map)
qed

lemma sort_by_score_mset: "mset (sort_by_score hits) = mset hits"
  by (simp add: sort_by_score_def)

lemma topResults_spec:
  fixes q :: "real list" and pname :: "string option" and docs :: "document list" and k :: int
  assumes "0 \<le> k"
  defines "ranked \<equiv> sort_by_score (map (with_score q) (candidates pname docs))"
  shows "topResults q k pname docs = take (nat k) ranked"
    and "length (topResults q k pname docs) = min (nat k) (length (candidates pname docs))"
    and "sorted_wrt (\<lambda>a b. score b \<le> score a) (topResults q k pname docs)"
    and "mset (topResults q k pname docs @ drop (nat k) ranked)
           = mset (map (with_score q) (candidates pname docs))"
    and "\<forall>h\<in>set (topResults q k pname docs). \<forall>x\<in>set (drop (nat k) ranked). score x \<le> score h"
proof -
  show t: "topResults q k pname docs = take (nat k) ranked"
    using assms(1) by (simp add: topResults_def slice_to_def ranked_def)
  have len: "length ranked = length (candidates pname docs)"
    by (simp add: ranked_def sort_by_score_def)
  show "length (topResults q k pname docs) = min (nat k) (length (candidates pname docs))"
    by (simp add: t len min.commute)
  have desc: "sorted_wrt (\<lambda>a b. score b \<le> score a) (take (nat k) ranked @ drop (nat k) ranked)"
    by (simp add: ranked_def sort_by_score_descending)
  then show "sorted_wrt (\<lambda>a b. score b \<le> score a) (topResults q k pname docs)"
    unfolding t sorted_wrt_append by simp
  show "mset (topResults q k pname docs @ drop (nat k) ranked)
           = mset (map (with_score q) (candidates pname docs))"
    unfolding t by (simp add: ranked_def sort_by_score_mset del: mset_map)
  show "\<forall>h\<in>set (topResults q k pname docs). \<forall>x\<in>set (drop (nat k) ranked). score x \<le> score h"
    using desc unfolding t sorted_wrt_append by simp
qed

lemma searchAndGenerate_returns:
  assumes "searchAndGenerate env query k pname s = (Inr r, s')"
  shows "\<exists>q. embedText env (tick s) query = Inr q
           \<and> sources r = map (source_of env) (topResults q k pname (db s))"
proof (cases "embedText env (tick s) query")
  case (Inl m)
  with assms show ?thesis by (simp add: searchAndGenerate_def)
next
  case (Inr q)
  with assms have "sources r = map (source_of env) (topResults q k pname (db s))"
    by (auto simp: searchAndGenerate_def Let_def allDocs_def split: sum.splits)
  with Inr show ?thesis by simp
qed

lemma searchAndGenerate_succeeds:
  assumes "embedText env (tick s) query = Inr q"
    and "generateWithContext env (Suc (tick s)) query
           (map (\<lambda>h. (doc_text h, doc_metadata h, score h)) (topResults q k pname (db s))) = Inr reply"
  shows "fst (searchAndGenerate env query k pname s) =
           Inr \<lparr>result_query = query, answer = reply, project = pname,
                 sources = map (source_of env) (topResults q k pname (db s))\<rparr>"
  using assms by (simp add: searchAndGenerate_def Let_def allDocs_def)

lemma axis_scores:
  "cosine (Some [1, 0]) (Some [- 1, 0]) = - (1 / (1 + 1 / 10 ^ 8))"
  "cosine (Some [1, 0]) (Some [0, 1]) = 0"
  "cosine (Some [1, 0]) (Some [1, 0]) = 1 / (1 + 1 / 10 ^ 8)"
  by (simp_all add: cosine_def)

lemma axis_search:
  "searchAndGenerate flaky_env ''let'' 2 None axis_store =
     (Inr \<lparr>result_query = ''let'', answer = ''answer'', project = None,
           sources =
             [\<lparr>source_file_path = JStr ''a.js'', source_author = JUndefined,
               source_commit_message = JUndefined, source_commit_date = JUndefined,
               relevance_score = ''100.0%'', preview = ''let a = 1''\<rparr>,
              \<lparr>source_file_path = JStr ''b.js'', source_author = JUndefined,
               source_commit_message = JUndefined, source_commit_date = JUndefined,
               relevance_score = ''0.0%'', preview = ''let b = 2''\<rparr>]\<rparr>,
      axis_store\<lparr>tick := 2\<rparr>)"
  by (simp add: searchAndGenerate_def flaky_env_def axis_store_def allDocs_def topResults_def
      candidates_def key_present_def with_score_def sort_by_score_def slice_to_def source_of_def
      axis_scores document.defs scored.defs Let_def numeral_2_eq_2)


lemma with_score_fields:
  "document.truncate (with_score q d) = d"
  "score (with_score q d) = cosine (Some q) (doc_embedding d)"
  "doc_embedding (with_score q d) = doc_embedding d"
  "doc_metadata (with_score q d) = doc_metadata d"
  "doc_text (with_score q d) = doc_text d"
  by (simp_all add: with_score_def document.defs scored.defs)

lemma scored_candidates:
  assumes "mset hits = mset (map (with_score q) (candidates pname docs))"
  shows "\<forall>h\<in>set hits. score h = cosine (Some q) (doc_embedding h)"
    and "mset (map document.truncate hits) =
           mset (if key_present pname
                 then filter (\<lambda>d. jprop (doc_metadata d) ''project_name'' = JStr (the pname)) docs
                 else docs)"
    and "key_present pname \<longrightarrow>
           (\<forall>h\<in>set hits. jprop (doc_metadata h) ''project_name'' = JStr (the pname))"
proof -
  have members: "set hits = set (map (with_score q) (candidates pname docs))"
    using assms by (rule mset_eq_setD)
  then show "\<forall>h\<in>set hits. score h = cosine (Some q) (doc_embedding h)"
    by (auto simp: with_score_fields)
  from members show "key_present pname \<longrightarrow>
           (\<forall>h\<in>set hits. jprop (doc_metadata h) ''project_name'' = JStr (the pname))"
    by (auto simp: with_score_fields candidates_def)
  have "mset (map document.truncate hits) = image_mset document.truncate (mset hits)"
    by simp
  also have "\<dots> = image_mset document.truncate (mset (map (with_score q) (candidates pname docs)))"
    by (simp only: assms)
  also have "\<dots> = mset (map (\<lambda>d. document.truncate (with_score q d)) (candidates pname docs))"
    by (simp add: comp_def multiset.map_comp)
  also have "\<dots> = mset (candidates pname docs)"
    by (simp add: with_score_fields)
  finally show "mset (map document.truncate hits) =
           mset (if key_present pname
                 then filter (\<lambda>d. jprop (doc_metadata d) ''project_name'' = JStr (the pname)) docs
                 else docs)"
    by (simp add: candidates_def)
qed

lemma mixed_search:
  "searchAndGenerate flaky_env ''let'' 2 (Some ''demo'') mixed_store =
     (Inr \<lparr>result_query = ''let'', answer = ''answer'', project = Some ''demo'',
           sources =
             [\<lparr>source_file_path = JStr ''b.js'', source_author = JUndefined,
               source_commit_message = JUndefined, source_commit_date = JUndefined,
               relevance_score = ''0.0%'', preview = ''let b = 2''\<rparr>,
              \<lparr>source_file_path = JStr ''c.js'', source_author = JUndefined,
               source_commit_message = JUndefined, source_commit_date = JUndefined,
               relevance_score = ''-100.0%'', preview = ''let c = 3''\<rparr>]\<rparr>,
      mixed_store\<lparr>tick := 2\<rparr>)"
  by (simp add: searchAndGenerate_def flaky_env_def mixed_store_def allDocs_def topResults_def
      candidates_def key_present_def with_score_def sort_by_score_def slice_to_def source_of_def
      axis_scores document.defs scored.defs Let_def numeral_2_eq_2)


text \<open>
  Claim C5.  When \<open>searchAndGenerate\<close> returns, for a count \<open>k\<close> that is not negative, its
  sources are the top \<open>k\<close> documents by cosine similarity.  The documents that are ranked
  are the stored documents, or, when a project name is given, exactly the stored documents
  whose metadata carry that project name; the score of each is the cosine similarity of the
  query embedding and the document's own embedding; the scored documents are sorted by
  descending score, and the first \<open>k\<close> of them (all of them, if there are fewer) are
  returned in that order, each with its full text as preview.  No document is left out
  for a low score: the number of sources depends on \<open>k\<close> and on the number of documents
  only, and every document that is not returned scores no higher than any that is.
\<close>

theorem searchAndGenerate_top_k:
  assumes "searchAndGenerate env query k pname s = (Inr r, s')" and "0 \<le> k"
  shows "\<exists>q rest.
           embedText env (tick s) query = Inr q
           \<and> sources r = map (source_of env) (topResults q k pname (db s))
           \<and> map preview (sources r) = map doc_text (topResults q k pname (db s))
           \<and> length (sources r) = min (nat k) (length (candidates pname (db s)))
           \<and> sorted_wrt (\<lambda>a b. score b \<le> score a) (topResults q k pname (db s))
           \<and> mset (topResults q k pname (db s) @ rest)
                = mset (map (with_score q) (candidates pname (db s)))
           \<and> (\<forall>h\<in>set (topResults q k pname (db s)). \<forall>x\<in>set rest. score x \<le> score h)
           \<and> (\<forall>h\<in>set (topResults q k pname (db s) @ rest).
                 score h = cosine (Some q) (doc_embedding h))
           \<and> mset (map document.truncate (topResults q k pname (db s) @ rest))
                = mset (if key_present pname
                        then filter (\<lambda>d. jprop (doc_metadata d) ''project_name'' = JStr (the pname))
                               (db s)
                        else db s)
           \<and> (key_present pname \<longrightarrow>
                (\<forall>h\<in>set (topResults q k pname (db s) @ rest).
                   jprop (doc_metadata h) ''project_name'' = JStr (the pname)))"
proof -
  from assms(1) obtain q where q: "embedText env (tick s) query = Inr q"
    and src: "sources r = map (source_of env) (topResults q k pname (db s))"
    using searchAndGenerate_returns by blast
  let ?rest = "drop (nat k) (sort_by_score (map (with_score q) (candidates pname (db s))))"
  note spec = topResults_spec [OF assms(2), of q pname "db s"]
  note ranked = scored_candidates [OF spec(4)]
  have prev: "map preview (sources r) = map doc_text (topResults q k pname (db s))"
    by (simp add: src source_of_def comp_def)
  have len: "length (sources r) = min (nat k) (length (candidates pname (db s)))"
    by (simp add: src spec(2))
  have "embedText env (tick s) query = Inr q
           \<and> sources r = map (source_of env) (topResults q k pname (db s))
           \<and> map preview (sources r) = map doc_text (topResults q k pname (db s))
           \<and> length (sources r) = min (nat k) (length (candidates pname (db s)))
           \<and> sorted_wrt (\<lambda>a b. score b \<le> score a) (topResults q k pname (db s))
           \<and> mset (topResults q k pname (db s) @ ?rest)
                = mset (map (with_score q) (candidates pname (db s)))
           \<and> (\<forall>h\<in>set (topResults q k pname (db s)). \<forall>x\<in>set ?rest. score x \<le> score h)
           \<and> (\<forall>h\<in>set (topResults q k pname (db s) @ ?rest).
                 score h = cosine (Some q) (doc_embedding h))
           \<and> mset (map document.truncate (topResults q k pname (db s) @ ?rest))
                = mset (if key_present pname
                        then filter (\<lambda>d. jprop (doc_metadata d) ''project_name'' = JStr (the pname))
                               (db s)
                        else db s)
           \<and> (key_present pname \<longrightarrow>
                (\<forall>h\<in>set (topResults q k pname (db s) @ ?rest).
                   jprop (doc_metadata h) ''project_name'' = JStr (the pname)))"
    using q src prev len spec(3) spec(4) spec(5) ranked(1) ranked(2) ranked(3)
    by (intro conjI)
  then show ?thesis by blast
qed


theorem searchAndGenerate_top_k_witness:
  "fst (searchAndGenerate flaky_env ''let'' 2 None axis_store) =
     Inr \<lparr>result_query = ''let'', answer = ''answer'', project = None,
           sources =
             [\<lparr>source_file_path = JStr ''a.js'', source_author = JUndefined,
               source_commit_message = JUndefined, source_commit_date = JUndefined,
               relevance_score = ''100.0%'', preview = ''let a = 1''\<rparr>,
              \<lparr>source_file_path = JStr ''b.js'', source_author = JUndefined,
               source_commit_message = JUndefined, source_commit_date = JUndefined,
               relevance_score = ''0.0%'', preview = ''let b = 2''\<rparr>]\<rparr>
   \<and> map doc_text (topResults [1, 0] 2 None (db axis_store)) = [''let a = 1'', ''let b = 2'']
   \<and> length (candidates None (db axis_store)) = 3
   \<and> fst (searchAndGenerate flaky_env ''let'' 2 (Some ''demo'') mixed_store) =
     Inr \<lparr>result_query = ''let'', answer = ''answer'', project = Some ''demo'',
           sources =
             [\<lparr>source_file_path = JStr ''b.js'', source_author = JUndefined,
               source_commit_message = JUndefined, source_commit_date = JUndefined,
               relevance_score = ''0.0%'', preview = ''let b = 2''\<rparr>,
              \<lparr>source_file_path = JStr ''c.js'', source_author = JUndefined,
               source_commit_message = JUndefined, source_commit_date = JUndefined,
               relevance_score = ''-100.0%'', preview = ''let c = 3''\<rparr>]\<rparr>
   \<and> map doc_text (topResults [1, 0] 2 (Some ''demo'') (db mixed_store))
       = [''let b = 2'', ''let c = 3'']
   \<and> map score (topResults [1, 0] 2 (Some ''demo'') (db mixed_store))
       = map (\<lambda>h. cosine (Some [1, 0]) (doc_embedding h))
           (topResults [1, 0] 2 (Some ''demo'') (db mixed_store))
   \<and> map (\<lambda>h. jprop (doc_metadata h) ''project_name'')
         (topResults [1, 0] 2 (Some ''demo'') (db mixed_store))
       = [JStr ''demo'', JStr ''demo'']
   \<and> map doc_id (filter (\<lambda>d. cosine (Some [1, 0]) (doc_embedding d) = 1 / (1 + 1 / 10 ^ 8))
                    (db mixed_store)) = [''doc-a'']"
proof -
  have k: "(0::int) \<le> 2" by simp
  have e: "embedText flaky_env (tick axis_store) ''let'' = Inr [1, 0]"
    by (simp add: flaky_env_def axis_store_def)
  from searchAndGenerate_top_k [OF axis_search k] e
  have "map doc_text (topResults [1, 0] 2 None (db axis_store)) = [''let a = 1'', ''let b = 2'']"
    by auto
  moreover have "length (candidates None (db axis_store)) = 3"
    by (simp add: candidates_def key_present_def axis_store_def)
  moreover have e': "embedText flaky_env (tick mixed_store) ''let'' = Inr [1, 0]"
    by (simp add: flaky_env_def mixed_store_def)
  have p: "key_present (Some ''demo'')"
    by (simp add: key_present_def)
  from searchAndGenerate_top_k [OF mixed_search k] e' p
  have ranked: "map doc_text (topResults [1, 0] 2 (Some ''demo'') (db mixed_store))
          = [''let b = 2'', ''let c = 3'']
        \<and> (\<forall>h\<in>set (topResults [1, 0] 2 (Some ''demo'') (db mixed_store)).
              score h = cosine (Some [1, 0]) (doc_embedding h)
              \<and> jprop (doc_metadata h) ''project_name'' = JStr ''demo'')"
    by auto
  then obtain x y where two: "topResults [1, 0] 2 (Some ''demo'') (db mixed_store) = [x, y]"
    by (auto simp: map_eq_Cons_conv)
  from ranked
  have "map doc_text (topResults [1, 0] 2 (Some ''demo'') (db mixed_store))
          = [''let b = 2'', ''let c = 3'']
        \<and> map score (topResults [1, 0] 2 (Some ''demo'') (db mixed_store))
          = map (\<lambda>h. cosine (Some [1, 0]) (doc_embedding h))
              (topResults [1, 0] 2 (Some ''demo'') (db mixed_store))
        \<and> map (\<lambda>h. jprop (doc_metadata h) ''project_name'')
              (topResults [1, 0] 2 (Some ''demo'') (db mixed_store))
          = [JStr ''demo'', JStr ''demo'']"
    unfolding two by simp
  moreover have "map doc_id (filter (\<lambda>d. cosine (Some [1, 0]) (doc_embedding d) = 1 / (1 + 1 / 10 ^ 8))
                    (db mixed_store)) = [''doc-a'']"
    by (simp add: mixed_store_def axis_scores)
  ultimately show ?thesis by (simp add: axis_search mixed_search)
qed

section \<open>Maintainability index\<close>

lemma square_step:
  fixes x :: real
  assumes "0 \<le> b" and "b \<le> x ^ m" and "c \<le> b * b"
  shows "c \<le> x ^ (2 * m)"
proof -
  have "b * b \<le> x ^ m * x ^ m"
    using assms(1,2) by (intro mult_mono) auto
  also have "\<dots> = x ^ (2 * m)"
    by (simp add: mult_2 power_add)
  finally show ?thesis using assms(3) by simp
qed

text \<open>
  Bounds on \<open>ln 10\<close>, from \<open>(1 + x/n)^n \<le> exp x\<close> with \<open>n = 4096\<close>; the power is bounded
  from below by twelve squarings, each rounded down.
\<close>

lemma ln_10_upper: "ln (10::real) \<le> 23045 / 10000"
proof -
  define x :: real where "x = 1 + (23045 / 10000) / 4096"
  have u1: "100056262207 / 100000000000 \<le> x ^ 1"
    by (simp add: x_def)
  have u2: "1001125560683 / 1000000000000 \<le> x ^ 2"
    using square_step [OF _ u1, of "1001125560683 / 1000000000000"] by simp
  have u4: "250563097063 / 250000000000 \<le> x ^ 4"
    using square_step [OF _ u2, of "250563097063 / 250000000000"] by simp
  have u8: "251127462439 / 250000000000 \<le> x ^ 8"
    using square_step [OF _ u4, of "251127462439 / 250000000000"] by simp
  have u16: "63065002391 / 62500000000 \<le> x ^ 16"
    using square_step [OF _ u8, of "63065002391 / 62500000000"] by simp
  have u32: "1018161798803 / 1000000000000 \<le> x ^ 32"
    using square_step [OF _ u16, of "1018161798803 / 1000000000000"] by simp
  have u64: "1036653448541 / 1000000000000 \<le> x ^ 64"
    using square_step [OF _ u32, of "1036653448541 / 1000000000000"] by simp
  have u128: "1074650372371 / 1000000000000 \<le> x ^ 128"
    using square_step [OF _ u64, of "1074650372371 / 1000000000000"] by simp
  have u256: "1154873422837 / 1000000000000 \<le> x ^ 256"
    using square_step [OF _ u128, of "1154873422837 / 1000000000000"] by simp
  have u512: "53349304911 / 40000000000 \<le> x ^ 512"
    using square_step [OF _ u256, of "53349304911 / 40000000000"] by simp
  have u1024: "889421354527 / 500000000000 \<le> x ^ 1024"
    using square_step [OF _ u512, of "889421354527 / 500000000000"] by simp
  have u2048: "1582140691777 / 500000000000 \<le> x ^ 2048"
    using square_step [OF _ u1024, of "1582140691777 / 500000000000"] by simp
  have u4096: "5006338337153 / 500000000000 \<le> x ^ 4096"
    using square_step [OF _ u2048, of "5006338337153 / 500000000000"] by simp
  have "(1 + (23045 / 10000) / real 4096) ^ 4096 \<le> exp (23045 / 10000 :: real)"
    by (rule exp_ge_one_plus_x_over_n_power_n) simp_all
  then have "x ^ 4096 \<le> exp (23045 / 10000)"
    by (simp only: x_def of_nat_numeral)
  with u4096 have "10 \<le> exp (23045 / 10000 :: real)"
    by simp
  then have "ln (10::real) \<le> ln (exp (23045 / 10000))"
    by (subst ln_le_cancel_iff) simp_all
  then show ?thesis by simp
qed

lemma ln_10_lower: "23015 / 10000 \<le> ln (10::real)"
proof -
  define y :: real where "y = 1 - (23015 / 10000) / 4096"
  have l1: "999438110351 / 1000000000000 \<le> y ^ 1"
    by (simp add: y_def)
  have l2: "998876536421 / 1000000000000 \<le> y ^ 2"
    using square_step [OF _ l1, of "998876536421 / 1000000000000"] by simp
  have l4: "249438583753 / 250000000000 \<le> y ^ 4"
    using square_step [OF _ l2, of "249438583753 / 250000000000"] by simp
  have l8: "199102742607 / 200000000000 \<le> y ^ 8"
    using square_step [OF _ l4, of "199102742607 / 200000000000"] by simp
  have l16: "24776188821 / 25000000000 \<le> y ^ 16"
    using square_step [OF _ l8, of "24776188821 / 25000000000"] by simp
  have l32: "98217525199 / 100000000000 \<le> y ^ 32"
    using square_step [OF _ l16, of "98217525199 / 100000000000"] by simp
  have l64: "964668225621 / 1000000000000 \<le> y ^ 64"
    using square_step [OF _ l32, of "964668225621 / 1000000000000"] by simp
  have l128: "465292392761 / 500000000000 \<le> y ^ 128"
    using square_step [OF _ l64, of "465292392761 / 500000000000"] by simp
  have l256: "173197608609 / 200000000000 \<le> y ^ 256"
    using square_step [OF _ l128, of "173197608609 / 200000000000"] by simp
  have l512: "93741911337 / 125000000000 \<le> y ^ 512"
    using square_step [OF _ l256, of "93741911337 / 125000000000"] by simp
  have l1024: "562402940231 / 1000000000000 \<le> y ^ 1024"
    using square_step [OF _ l512, of "562402940231 / 1000000000000"] by simp
  have l2048: "15814853359 / 50000000000 \<le> y ^ 2048"
    using square_step [OF _ l1024, of "15814853359 / 50000000000"] by simp
  have l4096: "50021917353 / 500000000000 \<le> y ^ 4096"
    using square_step [OF _ l2048, of "50021917353 / 500000000000"] by simp
  have "(1 - (23015 / 10000) / real 4096) ^ 4096 \<le> exp (- (23015 / 10000 :: real))"
    by (rule exp_ge_one_minus_x_over_n_power_n) simp_all
  then have "y ^ 4096 \<le> exp (- (23015 / 10000))"
    by (simp only: y_def of_nat_numeral)
  with l4096 have "1 / 10 \<le> exp (- (23015 / 10000 :: real))"
    by simp
  then have "exp (23015 / 10000 :: real) \<le> 10"
    by (simp add: exp_minus field_simps)
  then show ?thesis
    by (subst ln_ge_iff) simp_all
qed

lemma maintainability_example:
  "\<bar>maintainability 1 10 0 - 2078 / 10\<bar> < 5 / 100"
proof -
  have "maintainability 1 10 0 = max 0 (171 + 1597 / 100 * ln (10::real))"
    by (simp add: maintainability_def ln_div)
  moreover have "0 \<le> 171 + 1597 / 100 * ln (10::real)"
    using ln_10_lower by simp
  ultimately have m: "maintainability 1 10 0 = 171 + 1597 / 100 * ln (10::real)"
    by simp
  have "20775 / 100 < 171 + 1597 / 100 * ln (10::real)"
    using ln_10_lower by simp
  moreover have "171 + 1597 / 100 * ln (10::real) < 20785 / 100"
    using ln_10_upper by simp
  ultimately show ?thesis
    unfolding m by linarith
qed

lemma split_lines_nonempty: "split_lines s \<noteq> []"
  by (induction s) (auto split: list.splits)

lemma linesOfCode_positive: "1 \<le> linesOfCode (calculateCodeMetrics src)"
  using split_lines_nonempty [of src]
  by (cases "split_lines src") (simp_all add: calculateCodeMetrics_def Let_def)

text \<open>
  Through the keyword \<open>||\<close> every position of the content counts towards the cyclomatic
  complexity, which is therefore at least the length of the content plus 2.
\<close>

lemma cyclomaticComplexity_lower:
  "length src + 2 \<le> cyclomaticComplexity (calculateCodeMetrics src)"
  by (simp add: calculateCodeMetrics_def Let_def complexityKeywords_def keyword_matches_def)

lemma commentRatio_range:
  "0 \<le> commentRatio (calculateCodeMetrics src) \<and> commentRatio (calculateCodeMetrics src) \<le> 1"
proof -
  have "length (filter is_comment_line (split_lines src)) \<le> length (split_lines src)"
    by (rule length_filter_le)
  then show ?thesis
    by (simp add: calculateCodeMetrics_def Let_def divide_le_eq_1)
qed

lemma small_content_metrics:
  "cyclomaticComplexity (calculateCodeMetrics ''x = 1'') = 7"
  "linesOfCode (calculateCodeMetrics ''x = 1'') = 1"
  "commentRatio (calculateCodeMetrics ''x = 1'') = 0"
proof -
  have f: "fold (\<lambda>keyword sum. sum + keyword_matches keyword ''x = 1'') complexityKeywords 1 = 7"
    by code_simp
  have l: "split_lines ''x = 1'' = [''x = 1'']"
    by code_simp
  have c: "filter is_comment_line [''x = 1''] = []"
    by code_simp
  show "cyclomaticComplexity (calculateCodeMetrics ''x = 1'') = 7"
    unfolding calculateCodeMetrics_def Let_def f by (simp only: code_metrics.simps)
  show "linesOfCode (calculateCodeMetrics ''x = 1'') = 1"
    unfolding calculateCodeMetrics_def Let_def l by (simp only: code_metrics.simps list.size)
  show "commentRatio (calculateCodeMetrics ''x = 1'') = 0"
    unfolding calculateCodeMetrics_def Let_def l c by (simp only: code_metrics.simps list.size) simp
qed

lemma maintainabilityIndex_metrics:
  "maintainabilityIndex (calculateCodeMetrics src) =
     maintainability (cyclomaticComplexity (calculateCodeMetrics src))
       (linesOfCode (calculateCodeMetrics src)) (commentRatio (calculateCodeMetrics src))"
  unfolding calculateCodeMetrics_def Let_def by (simp only: code_metrics.simps)

lemma maintainability_above_100: "100 < maintainabilityIndex (calculateCodeMetrics ''x = 1'')"
proof -
  have "ln (7::real) \<le> 7" by (rule ln_bound) simp
  moreover have "0 \<le> ln (10::real)" by simp
  ultimately have "100 < 171 - 52 / 10 * ln (7::real) + 162 / 10 * ln (10::real)"
    by linarith
  then have "100 < maintainability 7 1 0"
    by (simp add: maintainability_def ln_div)
  then show ?thesis
    by (simp add: maintainabilityIndex_metrics small_content_metrics)
qed

text \<open>
  Claim C8.  For every content string the maintainability index computed by
  \<open>calculateCodeMetrics\<close> is \<open>max(0, 171 - 5.2 ln(cc) - 0.23 ln(loc) - 16.2 ln(cr + 0.1))\<close>
  of the cyclomatic complexity, the number of lines and the comment ratio computed from
  that content.  It is bounded below by 0 and not bounded above: the formula gives
  207.8, to within 0.05, for \<open>cc = 1\<close>, \<open>loc = 10\<close>, \<open>cr = 0\<close>, and the one-line content
  \<open>x = 1\<close> has an index above 100.
\<close>

theorem maintainabilityIndex_formula:
  "maintainabilityIndex (calculateCodeMetrics src) =
     max 0 (171 - 5.2 * ln (real (cyclomaticComplexity (calculateCodeMetrics src)))
                - 0.23 * ln (real (linesOfCode (calculateCodeMetrics src)))
                - 16.2 * ln (commentRatio (calculateCodeMetrics src) + 0.1))
   \<and> \<bar>maintainability 1 10 0 - 207.8\<bar> < 0.05
   \<and> 100 < maintainabilityIndex (calculateCodeMetrics ''x = 1'')"
proof -
  have "maintainabilityIndex (calculateCodeMetrics src) =
     max 0 (171 - 5.2 * ln (real (cyclomaticComplexity (calculateCodeMetrics src)))
                - 0.23 * ln (real (linesOfCode (calculateCodeMetrics src)))
                - 16.2 * ln (commentRatio (calculateCodeMetrics src) + 0.1))"
    unfolding maintainabilityIndex_metrics maintainability_def ..
  moreover have "\<bar>maintainability 1 10 0 - 207.8\<bar> < 0.05"
    using maintainability_example by simp
  ultimately show ?thesis
    using maintainability_above_100 by blast
qed

theorem maintainabilityIndex_formula_witness:
  "0 \<le> maintainabilityIndex (calculateCodeMetrics ''if (a) b'')
   \<and> 100 < maintainabilityIndex (calculateCodeMetrics ''x = 1'')"
  using maintainabilityIndex_formula [of "''if (a) b''"] by simp

end
